theory Spec2Isabelle
  imports Main "HOL-Library.Word" "HOL-Library.Log_Nat"
begin

unbundle bit_operations_syntax

section \<open>The board: the Pico SDK calls used by the drivers\<close>

text \<open>
  The drivers reach the hardware only through SDK calls (\<^verbatim>\<open>gpio_init\<close>,
  \<^verbatim>\<open>gpio_set_pulls\<close>, \<^verbatim>\<open>gpio_set_dir\<close>, \<^verbatim>\<open>gpio_put\<close>, \<^verbatim>\<open>gpio_get\<close>,
  \<^verbatim>\<open>time_us_32\<close>, \<^verbatim>\<open>to_ms_since_boot(get_absolute_time())\<close>, \<^verbatim>\<open>sleep_us\<close>,
  \<^verbatim>\<open>sleep_ms\<close>), which are not part of the repository. The board below is a
  deterministic stand-in for them:
  \<^item> \<open>clock_us\<close> is the free-running microsecond counter;
  \<^item> \<open>line\<close> is the level that the outside world drives on each pin at each time;
  \<^item> \<open>gpio_reads\<close> counts the pin samples taken so far;
  \<^item> \<open>journal\<close> lists every call that configures a pin, drives a pin or sleeps, most
    recent first.
  Sampling a pin takes one microsecond, sleeping takes exactly the requested time, and
  reading a clock takes no time and leaves the board as it is.
\<close>

type_synonym u8 = "8 word"
type_synonym u32 = "32 word"

datatype hw_event =
    Gpio_Init u32
  | Gpio_Set_Pulls u32 bool bool
  | Gpio_Set_Dir u32 bool
  | Gpio_Put u32 bool
  | Sleep_Us nat
  | Sleep_Ms u32

record board =
  clock_us :: nat
  line :: "u32 \<Rightarrow> nat \<Rightarrow> bool"
  gpio_reads :: nat
  journal :: "hw_event list"

definition GPIO_OUT :: bool where "GPIO_OUT = True"
definition GPIO_IN :: bool where "GPIO_IN = False"

definition log_call :: "hw_event \<Rightarrow> board \<Rightarrow> board" where
  "log_call e w = w\<lparr>journal := e # journal w\<rparr>"

definition elapse :: "nat \<Rightarrow> board \<Rightarrow> board" where
  "elapse d w = w\<lparr>clock_us := clock_us w + d\<rparr>"

definition gpio_init :: "u32 \<Rightarrow> board \<Rightarrow> board" where
  "gpio_init gpio w = log_call (Gpio_Init gpio) w"

definition gpio_set_pulls :: "u32 \<Rightarrow> bool \<Rightarrow> bool \<Rightarrow> board \<Rightarrow> board" where
  "gpio_set_pulls gpio up down w = log_call (Gpio_Set_Pulls gpio up down) w"

definition gpio_set_dir :: "u32 \<Rightarrow> bool \<Rightarrow> board \<Rightarrow> board" where
  "gpio_set_dir gpio out w = log_call (Gpio_Set_Dir gpio out) w"

definition gpio_put :: "u32 \<Rightarrow> bool \<Rightarrow> board \<Rightarrow> board" where
  "gpio_put gpio v w = log_call (Gpio_Put gpio v) w"

definition gpio_get :: "u32 \<Rightarrow> board \<Rightarrow> bool \<times> board" where
  "gpio_get gpio w =
     (line w gpio (clock_us w), elapse 1 (w\<lparr>gpio_reads := gpio_reads w + 1\<rparr>))"

text \<open>\<^verbatim>\<open>time_us_32()\<close>: the low 32 bits of the microsecond counter.\<close>

definition time_us_32 :: "board \<Rightarrow> u32" where
  "time_us_32 w = word_of_nat (clock_us w)"

text \<open>\<^verbatim>\<open>to_ms_since_boot(get_absolute_time())\<close>: milliseconds, truncated to 32 bits.\<close>

definition ms_since_boot :: "board \<Rightarrow> u32" where
  "ms_since_boot w = word_of_nat (clock_us w div 1000)"

definition sleep_us :: "nat \<Rightarrow> board \<Rightarrow> board" where
  "sleep_us d w = elapse d (log_call (Sleep_Us d) w)"

definition sleep_ms :: "u32 \<Rightarrow> board \<Rightarrow> board" where
  "sleep_ms d w = elapse (1000 * unat d) (log_call (Sleep_Ms d) w)"

section \<open>dht22.h and dht22.c\<close>

datatype dht22_rc =
    DHT22_OK
  | DHT22_ERROR_CHECKSUM
  | DHT22_ERROR_TIMEOUT
  | DHT22_ERROR_INVALID_DATA
  | DHT22_ERROR_NOT_INITIALIZED

text \<open>The values that \<^verbatim>\<open>dht22.h\<close> gives to the return codes.\<close>

fun dht22_rc_value :: "dht22_rc \<Rightarrow> int" where
  "dht22_rc_value DHT22_OK = 0"
| "dht22_rc_value DHT22_ERROR_CHECKSUM = - 1"
| "dht22_rc_value DHT22_ERROR_TIMEOUT = - 2"
| "dht22_rc_value DHT22_ERROR_INVALID_DATA = - 3"
| "dht22_rc_value DHT22_ERROR_NOT_INITIALIZED = - 4"

definition DHT22_START_SIGNAL_DELAY :: nat where "DHT22_START_SIGNAL_DELAY = 18000"
definition DHT22_RESPONSE_WAIT_TIMEOUT :: u32 where "DHT22_RESPONSE_WAIT_TIMEOUT = 200"
definition DHT22_BIT_THRESHOLD :: u32 where "DHT22_BIT_THRESHOLD = 50"
definition DHT22_MIN_INTERVAL_MS :: u32 where "DHT22_MIN_INTERVAL_MS = 2000"

record dht22_state_t =
  last_read_time_ms :: u32
  pin :: u32
  initialized :: bool

text \<open>\<^verbatim>\<open>static dht22_state_t dht22_state = {0, 0, false};\<close>\<close>

definition dht22_state :: dht22_state_t where
  "dht22_state = \<lparr>last_read_time_ms = 0, pin = 0, initialized = False\<rparr>"

text \<open>
  The polling loop of \<^verbatim>\<open>wait_for_pin_state\<close>. With the largest timeout and a pin that
  never reaches the level, the loop of the source does not end, so the result is an
  option: \<open>None\<close> is the loop that runs forever.
\<close>

partial_function (option) wait_loop ::
  "u32 \<Rightarrow> bool \<Rightarrow> u32 \<Rightarrow> u32 \<Rightarrow> board \<Rightarrow> (int \<times> board) option" where
  "wait_loop gpio state timeout_us start w =
     (if fst (gpio_get gpio w) \<noteq> state then
        (if time_us_32 (snd (gpio_get gpio w)) - start > timeout_us
         then Some (- 1, snd (gpio_get gpio w))
         else wait_loop gpio state timeout_us start (snd (gpio_get gpio w)))
      else Some (0, snd (gpio_get gpio w)))"

definition wait_for_pin_state :: "u32 \<Rightarrow> bool \<Rightarrow> u32 \<Rightarrow> board \<Rightarrow> (int \<times> board) option" where
  "wait_for_pin_state gpio state timeout_us w =
     wait_loop gpio state timeout_us (time_us_32 w) w"

definition dht22_init :: "u32 \<Rightarrow> dht22_state_t \<Rightarrow> board \<Rightarrow> dht22_rc \<times> dht22_state_t \<times> board" where
  "dht22_init gpio s w =
     (DHT22_OK,
      s\<lparr>pin := gpio, last_read_time_ms := 0, initialized := True\<rparr>,
      gpio_set_pulls gpio True False (gpio_init gpio w))"

definition dht22_send_start_signal :: "u32 \<Rightarrow> board \<Rightarrow> dht22_rc \<times> board" where
  "dht22_send_start_signal gpio w =
     (DHT22_OK,
      gpio_set_dir gpio GPIO_IN
        (sleep_us 30
          (gpio_put gpio True
            (sleep_us DHT22_START_SIGNAL_DELAY
              (gpio_put gpio False
                (gpio_set_dir gpio GPIO_OUT w))))))"

definition dht22_wait_for_response :: "u32 \<Rightarrow> board \<Rightarrow> (dht22_rc \<times> board) option" where
  "dht22_wait_for_response gpio w =
     (case wait_for_pin_state gpio False DHT22_RESPONSE_WAIT_TIMEOUT w of
        None \<Rightarrow> None
      | Some (r1, w1) \<Rightarrow>
          if r1 \<noteq> 0 then Some (DHT22_ERROR_TIMEOUT, w1)
          else (case wait_for_pin_state gpio True DHT22_RESPONSE_WAIT_TIMEOUT w1 of
                  None \<Rightarrow> None
                | Some (r2, w2) \<Rightarrow>
                    if r2 \<noteq> 0 then Some (DHT22_ERROR_TIMEOUT, w2)
                    else (case wait_for_pin_state gpio False DHT22_RESPONSE_WAIT_TIMEOUT w2 of
                            None \<Rightarrow> None
                          | Some (r3, w3) \<Rightarrow>
                              if r3 \<noteq> 0 then Some (DHT22_ERROR_TIMEOUT, w3)
                              else Some (DHT22_OK, w3))))"

text \<open>
  Lines 77 to 83, the first half of the body of the loop of \<^verbatim>\<open>dht22_read_data\<close>:
  wait for the rising edge, take \<^verbatim>\<open>pulse_start\<close>, wait for the falling edge, and
  compute \<^verbatim>\<open>pulse_length\<close>. \<open>Inl\<close> is the early return with
  \<^verbatim>\<open>DHT22_ERROR_TIMEOUT\<close>.
\<close>

definition measure_pulse :: "u32 \<Rightarrow> board \<Rightarrow> ((unit + u32) \<times> board) option" where
  "measure_pulse gpio w =
     (case wait_for_pin_state gpio True DHT22_RESPONSE_WAIT_TIMEOUT w of
        None \<Rightarrow> None
      | Some (r1, w1) \<Rightarrow>
          if r1 \<noteq> 0 then Some (Inl (), w1)
          else (case wait_for_pin_state gpio False DHT22_RESPONSE_WAIT_TIMEOUT w1 of
                  None \<Rightarrow> None
                | Some (r2, w2) \<Rightarrow>
                    if r2 \<noteq> 0 then Some (Inl (), w2)
                    else Some (Inr (time_us_32 w2 - time_us_32 w1), w2)))"

text \<open>
  Lines 86 to 88, the second half:
  \<^verbatim>\<open>if (pulse_length > DHT22_BIT_THRESHOLD) data[i / 8] |= (1 << (7 - (i % 8)));\<close>
\<close>

definition store_bit :: "nat \<Rightarrow> u32 \<Rightarrow> u8 list \<Rightarrow> u8 list" where
  "store_bit i pulse_length data =
     (if pulse_length > DHT22_BIT_THRESHOLD
      then data[i div 8 := (data ! (i div 8)) OR push_bit (7 - i mod 8) 1]
      else data)"

text \<open>The loop \<^verbatim>\<open>for (int i = 0; i < 40; i++)\<close>, entered at \<open>i\<close>.\<close>

function read_data_loop ::
  "u32 \<Rightarrow> nat \<Rightarrow> u8 list \<Rightarrow> board \<Rightarrow> (dht22_rc \<times> u8 list \<times> board) option" where
  "read_data_loop gpio i data w =
     (if i < 40 then
        (case measure_pulse gpio w of
           None \<Rightarrow> None
         | Some (Inl _, w') \<Rightarrow> Some (DHT22_ERROR_TIMEOUT, data, w')
         | Some (Inr pulse_length, w') \<Rightarrow>
             read_data_loop gpio (Suc i) (store_bit i pulse_length data) w')
      else Some (DHT22_OK, data, w))"
  by pat_completeness auto
termination
  by (relation "measure (\<lambda>(gpio, i, data, w). 40 - i)") auto

declare read_data_loop.simps [simp del]

definition dht22_read_data ::
  "u32 \<Rightarrow> u8 list \<Rightarrow> board \<Rightarrow> (dht22_rc \<times> u8 list \<times> board) option" where
  "dht22_read_data gpio data w = read_data_loop gpio 0 data w"

definition dht22_verify_checksum :: "u8 list \<Rightarrow> dht22_rc" where
  "dht22_verify_checksum data =
     (let checksum = (word_of_nat (unat (data ! 0) + unat (data ! 1)
                                   + unat (data ! 2) + unat (data ! 3)) :: u8)
      in if checksum \<noteq> data ! 4 then DHT22_ERROR_CHECKSUM else DHT22_OK)"


subsection \<open>C floating point\<close>

text \<open>
  \<^verbatim>\<open>float\<close> and \<^verbatim>\<open>double\<close> are IEEE 754 binary32 and binary64: a value is a
  rational with a 24-bit, respectively 53-bit, significand, and every operation rounds
  its exact result to the nearest such value, ties to the even significand. The values
  of this driver lie between 0.1 and 6553.5 in magnitude (or are zero), far inside the
  exponent range of both formats, so the exponent is left unbounded.
\<close>

definition pow2 :: "int \<Rightarrow> rat" where
  "pow2 e = (if 0 \<le> e then 2 ^ nat e else 1 / 2 ^ nat (- e))"

definition ilog2 :: "rat \<Rightarrow> int" where
  "ilog2 x = (if 1 \<le> x then bitlen \<lfloor>x\<rfloor> - 1 else - bitlen (\<lceil>1 / x\<rceil> - 1))"

definition round_half_even :: "rat \<Rightarrow> int" where
  "round_half_even x =
     (if x - of_int \<lfloor>x\<rfloor> < 1 / 2 then \<lfloor>x\<rfloor>
      else if 1 / 2 < x - of_int \<lfloor>x\<rfloor> then \<lfloor>x\<rfloor> + 1
      else if even \<lfloor>x\<rfloor> then \<lfloor>x\<rfloor> else \<lfloor>x\<rfloor> + 1)"

definition fp_round :: "nat \<Rightarrow> rat \<Rightarrow> rat" where
  "fp_round p x =
     (if x = 0 then 0
      else of_int (round_half_even (x / pow2 (ilog2 \<bar>x\<bar> - int p + 1)))
           * pow2 (ilog2 \<bar>x\<bar> - int p + 1))"

definition to_double :: "rat \<Rightarrow> rat" where "to_double x = fp_round 53 x"
definition to_float :: "rat \<Rightarrow> rat" where "to_float x = fp_round 24 x"

definition double_of_int :: "int \<Rightarrow> rat" where "double_of_int n = to_double (of_int n)"
definition float_of_int :: "int \<Rightarrow> rat" where "float_of_int n = to_float (of_int n)"
definition double_mul :: "rat \<Rightarrow> rat \<Rightarrow> rat" where "double_mul a b = to_double (a * b)"
definition float_mul :: "rat \<Rightarrow> rat \<Rightarrow> rat" where "float_mul a b = to_float (a * b)"

text \<open>The literal \<^verbatim>\<open>0.1\<close>: the double nearest to one tenth.\<close>

definition DBL_0_1 :: rat where "DBL_0_1 = to_double (1 / 10)"

text \<open>
  What the C expression \<^verbatim>\<open>n * 0.1\<close> yields for an \<^verbatim>\<open>int n\<close> once it is stored in a
  \<^verbatim>\<open>float\<close>: the product of \<open>n\<close> and the double nearest to one tenth, rounded to
  double and then to float.
\<close>

definition times_0_1 :: "int \<Rightarrow> rat" where
  "times_0_1 n = to_float (double_mul (double_of_int n) DBL_0_1)"

subsection \<open>Conversion and the read transaction\<close>

text \<open>
  \<^verbatim>\<open>dht22_convert_data\<close> writes both output parameters before it validates them, so
  the model returns the return code together with \<^verbatim>\<open>*temperature\<close> and
  \<^verbatim>\<open>*humidity\<close>. The bytes are promoted to \<^verbatim>\<open>int\<close> before shifting.
\<close>

definition dht22_convert_data :: "u8 list \<Rightarrow> dht22_rc \<times> rat \<times> rat" where
  "dht22_convert_data data =
     (let humidity = to_float (double_mul
            (double_of_int (push_bit 8 (uint (data ! 0)) OR uint (data ! 1))) DBL_0_1);
          temperature = to_float (double_mul
            (double_of_int (push_bit 8 (uint (data ! 2) AND 0x7F) OR uint (data ! 3))) DBL_0_1);
          temperature = (if uint (data ! 2) AND 0x80 \<noteq> 0
                         then float_mul temperature (float_of_int (- 1)) else temperature)
      in if humidity < 0 \<or> humidity > 100 \<or> temperature < - 40 \<or> temperature > 80
         then (DHT22_ERROR_INVALID_DATA, temperature, humidity)
         else (DHT22_OK, temperature, humidity))"

text \<open>
  \<^verbatim>\<open>dht22_read\<close> returns the return code, what it wrote through
  \<^verbatim>\<open>temperature\<close> and \<^verbatim>\<open>humidity\<close> (\<open>None\<close> when it wrote nothing), the driver
  state and the board.
\<close>

definition dht22_read ::
  "dht22_state_t \<Rightarrow> board \<Rightarrow> (dht22_rc \<times> (rat \<times> rat) option \<times> dht22_state_t \<times> board) option" where
  "dht22_read s w =
     (if \<not> initialized s then Some (DHT22_ERROR_NOT_INITIALIZED, None, s, w)
      else
        (let current_time = ms_since_boot w;
             w2 = (if current_time - last_read_time_ms s < DHT22_MIN_INTERVAL_MS
                      \<and> last_read_time_ms s \<noteq> 0
                   then sleep_ms (DHT22_MIN_INTERVAL_MS - (current_time - last_read_time_ms s)) w
                   else w);
             r3 = fst (dht22_send_start_signal (pin s) w2);
             w3 = snd (dht22_send_start_signal (pin s) w2)
         in if r3 \<noteq> DHT22_OK then Some (r3, None, s, w3)
            else
              (case dht22_wait_for_response (pin s) w3 of
                 None \<Rightarrow> None
               | Some (r4, w4) \<Rightarrow>
                   if r4 \<noteq> DHT22_OK then Some (r4, None, s, w4)
                   else
                     (case dht22_read_data (pin s) [0, 0, 0, 0, 0] w4 of
                        None \<Rightarrow> None
                      | Some (r5, data, w5) \<Rightarrow>
                          if r5 \<noteq> DHT22_OK then Some (r5, None, s, w5)
                          else
                            (let s' = s\<lparr>last_read_time_ms := ms_since_boot w5\<rparr>
                             in if dht22_verify_checksum data \<noteq> DHT22_OK
                                then Some (dht22_verify_checksum data, None, s', w5)
                                else Some (fst (dht22_convert_data data),
                                           Some (snd (dht22_convert_data data)), s', w5))))))"

section \<open>Observations of a read\<close>

text \<open>
  The definitions of this section are not functions of the source. They name what the
  properties below speak about: the board on which \<^verbatim>\<open>dht22_read\<close> issues the start
  signal, the frame it captures, and the pulse lengths it measures.
\<close>

text \<open>What \<^verbatim>\<open>dht22_send_start_signal\<close> adds to the journal, most recent first.\<close>

definition start_events :: "u32 \<Rightarrow> hw_event list" where
  "start_events gpio =
     [Gpio_Set_Dir gpio GPIO_IN, Sleep_Us 30, Gpio_Put gpio True,
      Sleep_Us DHT22_START_SIGNAL_DELAY, Gpio_Put gpio False, Gpio_Set_Dir gpio GPIO_OUT]"

text \<open>The board after lines 133 to 137 of \<^verbatim>\<open>dht22_read\<close>, the minimum-interval check.\<close>

definition rate_limit :: "dht22_state_t \<Rightarrow> board \<Rightarrow> board" where
  "rate_limit s w =
     (if ms_since_boot w - last_read_time_ms s < DHT22_MIN_INTERVAL_MS
         \<and> last_read_time_ms s \<noteq> 0
      then sleep_ms (DHT22_MIN_INTERVAL_MS - (ms_since_boot w - last_read_time_ms s)) w
      else w)"

text \<open>
  Lines 139 to 149: start signal, handshake and bit capture. The result is the return
  code of the stage that ended the transaction, the buffer \<^verbatim>\<open>data\<close> and the board.
\<close>

definition read_frame :: "dht22_state_t \<Rightarrow> board \<Rightarrow> (dht22_rc \<times> u8 list \<times> board) option" where
  "read_frame s w =
     (case dht22_wait_for_response (pin s)
             (snd (dht22_send_start_signal (pin s) (rate_limit s w))) of
        None \<Rightarrow> None
      | Some (r4, w4) \<Rightarrow>
          if r4 \<noteq> DHT22_OK then Some (r4, [0, 0, 0, 0, 0], w4)
          else dht22_read_data (pin s) [0, 0, 0, 0, 0] w4)"

text \<open>The pulse lengths measured by \<open>n\<close> consecutive iterations of the capture loop.\<close>

fun pulse_lengths :: "u32 \<Rightarrow> nat \<Rightarrow> board \<Rightarrow> u32 list" where
  "pulse_lengths gpio 0 w = []"
| "pulse_lengths gpio (Suc n) w =
     (case measure_pulse gpio w of
        Some (Inr pulse_length, w') \<Rightarrow> pulse_length # pulse_lengths gpio n w'
      | _ \<Rightarrow> [])"

text \<open>What the second half of the loop body makes of a list of pulse lengths, from bit \<open>i\<close> on.\<close>

fun store_bits :: "nat \<Rightarrow> u32 list \<Rightarrow> u8 list \<Rightarrow> u8 list" where
  "store_bits i [] data = data"
| "store_bits i (l # ls) data = store_bits (Suc i) ls (store_bit i l data)"

text \<open>Bit \<open>i\<close> of the 40-bit payload, most significant bit of byte 0 first.\<close>

definition payload_bit :: "u8 list \<Rightarrow> nat \<Rightarrow> bool" where
  "payload_bit data i = bit (data ! (i div 8)) (7 - i mod 8)"

text \<open>The board on which the start signal has just been sent.\<close>

definition start_board :: "dht22_state_t \<Rightarrow> board \<Rightarrow> board" where
  "start_board s w = snd (dht22_send_start_signal (pin s) (rate_limit s w))"

text \<open>
  \<open>capture_reaches gpio w0 i wi\<close>: the capture loop entered on board \<open>w0\<close> starts its
  iteration \<open>i\<close> on board \<open>wi\<close>.
\<close>

inductive capture_reaches :: "u32 \<Rightarrow> board \<Rightarrow> nat \<Rightarrow> board \<Rightarrow> bool" for gpio w0 where
  at_start: "capture_reaches gpio w0 0 w0"
| after_pulse: "capture_reaches gpio w0 i wi \<Longrightarrow> i < 40 \<Longrightarrow> measure_pulse gpio wi = Some (Inr l, w')
         \<Longrightarrow> capture_reaches gpio w0 (Suc i) w'"

text \<open>
  \<open>edge_wait s w level w0\<close>: in the course of \<^verbatim>\<open>dht22_read\<close> called in state \<open>s\<close> on
  board \<open>w\<close>, \<^verbatim>\<open>wait_for_pin_state\<close> is called for \<open>level\<close> on board \<open>w0\<close>. These
  are the three waits of the handshake, each reached when those before it succeeded, and
  the two waits of every iteration of the capture loop.
\<close>

inductive edge_wait :: "dht22_state_t \<Rightarrow> board \<Rightarrow> bool \<Rightarrow> board \<Rightarrow> bool" for s w where
  response_low: "edge_wait s w False (start_board s w)"
| response_high:
    "wait_for_pin_state (pin s) False DHT22_RESPONSE_WAIT_TIMEOUT (start_board s w) = Some (0, w1)
     \<Longrightarrow> edge_wait s w True w1"
| response_low_again:
    "wait_for_pin_state (pin s) False DHT22_RESPONSE_WAIT_TIMEOUT (start_board s w) = Some (0, w1)
     \<Longrightarrow> wait_for_pin_state (pin s) True DHT22_RESPONSE_WAIT_TIMEOUT w1 = Some (0, w2)
     \<Longrightarrow> edge_wait s w False w2"
| bit_rise:
    "dht22_wait_for_response (pin s) (start_board s w) = Some (DHT22_OK, w4)
     \<Longrightarrow> capture_reaches (pin s) w4 i wi \<Longrightarrow> i < 40
     \<Longrightarrow> edge_wait s w True wi"
| bit_fall:
    "dht22_wait_for_response (pin s) (start_board s w) = Some (DHT22_OK, w4)
     \<Longrightarrow> capture_reaches (pin s) w4 i wi \<Longrightarrow> i < 40
     \<Longrightarrow> wait_for_pin_state (pin s) True DHT22_RESPONSE_WAIT_TIMEOUT wi = Some (0, w1)
     \<Longrightarrow> edge_wait s w False w1"

section \<open>A simulated sensor\<close>

text \<open>\<open>advance k\<close>: the board after \<open>k\<close> pin samples.\<close>

definition advance :: "nat \<Rightarrow> board \<Rightarrow> board" where
  "advance k w = w\<lparr>clock_us := clock_us w + k, gpio_reads := gpio_reads w + k\<rparr>"

text \<open>
  A waveform is a list of segments (level, duration in microseconds); after the last
  segment the pull-up holds the line high.
\<close>

fun level_at :: "(bool \<times> nat) list \<Rightarrow> nat \<Rightarrow> bool" where
  "level_at [] t = True"
| "level_at ((l, d) # segs) t = (if t < d then l else level_at segs (t - d))"

text \<open>The waveform starts at time \<open>t0\<close>; before that the line is high.\<close>

definition waveform :: "nat \<Rightarrow> (bool \<times> nat) list \<Rightarrow> u32 \<Rightarrow> nat \<Rightarrow> bool" where
  "waveform t0 segs gpio t = (if t < t0 then True else level_at segs (t - t0))"

text \<open>From now on, pin \<open>gpio\<close> of the board sees the waveform \<open>segs\<close>.\<close>

definition drives :: "u32 \<Rightarrow> board \<Rightarrow> (bool \<times> nat) list \<Rightarrow> bool" where
  "drives gpio w segs \<longleftrightarrow> (\<forall>j. line w gpio (clock_us w + j) = level_at segs j)"

text \<open>
  The sensor's answer to a start signal: low, high, low, then one high pulse per bit,
  each followed by a microsecond of low.
\<close>

fun pulses :: "nat list \<Rightarrow> (bool \<times> nat) list" where
  "pulses [] = []"
| "pulses (h # hs) = (True, h) # (False, 1) # pulses hs"

definition answer :: "nat list \<Rightarrow> (bool \<times> nat) list" where
  "answer hs = (False, 1) # (True, 1) # (False, 1) # pulses hs"

text \<open>
  A board at time \<open>t\<close> whose sensor answers a start signal issued at time \<open>t\<close> with
  the pulses \<open>hs\<close>: the answer begins when the start signal ends, 18030 microseconds
  later.
\<close>

definition bench :: "nat \<Rightarrow> nat list \<Rightarrow> board" where
  "bench t hs =
     \<lparr>clock_us = t, line = waveform (t + 18030) (answer hs), gpio_reads = 0, journal = []\<rparr>"

section \<open>hx711.h\<close>

text \<open>
  The header declares \<^verbatim>\<open>extern float scale_factor\<close>,
  \<^verbatim>\<open>void calibrate_hx711(int32_t known_weight_reading, float actual_weight)\<close> and
  \<^verbatim>\<open>float calculate_weight(int32_t reading)\<close>. The file that defines them,
  \<^verbatim>\<open>hx711.c\<close>, is missing. In the two models below the stored scale factor is passed
  in, and \<open>Inl\<close> stands for the rejection that the spec asks for.
\<close>

datatype hx711_error = Invalid_Reference_Weight | Scale_Factor_Zero

definition float_div :: "rat \<Rightarrow> rat \<Rightarrow> rat" where "float_div a b = to_float (a / b)"

text \<open>
  Modelled from the spec: the body of \<^verbatim>\<open>calibrate_hx711\<close> (in the missing
  \<^verbatim>\<open>hx711.c\<close>). ``Computes and stores scale factor = known_weight_reading /
  actual_weight; zero or negative actual_weight yields an undefined/invalid scale and
  should be rejected.'' The result is the outcome and the scale factor stored afterwards.
\<close>

definition calibrate_hx711 :: "32 word \<Rightarrow> rat \<Rightarrow> rat \<Rightarrow> (hx711_error + unit) \<times> rat" where
  "calibrate_hx711 known_weight_reading actual_weight scale_factor =
     (if actual_weight \<le> 0 then (Inl Invalid_Reference_Weight, scale_factor)
      else (Inr (), float_div (float_of_int (sint known_weight_reading)) actual_weight))"

text \<open>
  Modelled from the spec: the body of \<^verbatim>\<open>calculate_weight\<close> (in the missing
  \<^verbatim>\<open>hx711.c\<close>). ``weight = reading / scale_factor; if scale factor is uninitialized
  (zero), this is a precondition violation the implementation must guard against
  explicitly rather than dividing by zero.''
\<close>

definition calculate_weight :: "32 word \<Rightarrow> rat \<Rightarrow> hx711_error + rat" where
  "calculate_weight reading scale_factor =
     (if scale_factor = 0 then Inl Scale_Factor_Zero
      else Inr (float_div (float_of_int (sint reading)) scale_factor))"

section \<open>Test benches\<close>

text \<open>The driver state after \<^verbatim>\<open>dht22_init(15)\<close>.\<close>

definition ready :: dht22_state_t where
  "ready = \<lparr>last_read_time_ms = 0, pin = 15, initialized = True\<rparr>"

text \<open>
  Three answers of the sensor, as pulse lengths: one with a 49 and a 51 microsecond
  pulse, one with short pulses only, and one that carries the frame
  \<^verbatim>\<open>05 DC 00 00 E1\<close>.
\<close>

definition skewed_pulses :: "nat list" where
  "skewed_pulses = 49 # 51 # replicate 38 1"

definition quiet_pulses :: "nat list" where
  "quiet_pulses = replicate 40 1"

definition humid_pulses :: "nat list" where
  "humid_pulses =
     [1, 1, 1, 1, 1, 51, 1, 51] @ [51, 51, 1, 51, 51, 51, 1, 1] @ replicate 16 1
     @ [51, 51, 51, 1, 1, 1, 1, 51]"

text \<open>The board at the end of a read of the short-pulse answer that started at time \<open>t\<close>.\<close>

definition quiet_end :: "nat \<Rightarrow> board" where
  "quiet_end t =
     \<lparr>clock_us = t + 18113, line = waveform (t + 18030) (answer quiet_pulses), gpio_reads = 83,
      journal = start_events 15\<rparr>"

text \<open>
  A start time, 49.7 days after boot, from which that read ends exactly when the 32-bit
  millisecond clock wraps around to 0.
\<close>

definition wrap_start :: nat where "wrap_start = 4294967277887"

text \<open>
  The boards at the end of the reads of the other two answers that started at time
  5000, and the board on which the capture of the first one starts.
\<close>

definition skewed_end :: board where
  "skewed_end =
     \<lparr>clock_us = 23211, line = waveform 23030 (answer skewed_pulses), gpio_reads = 181,
      journal = start_events 15\<rparr>"

definition humid_end :: board where
  "humid_end =
     \<lparr>clock_us = 23663, line = waveform 23030 (answer humid_pulses), gpio_reads = 633,
      journal = start_events 15\<rparr>"

definition skewed_capture :: board where
  "skewed_capture =
     \<lparr>clock_us = 23033, line = waveform 23030 (answer skewed_pulses), gpio_reads = 3,
      journal = start_events 15\<rparr>"

text \<open>
  A board at time 0 whose sensor answers the start signal with the waveform \<open>segs\<close>,
  for answers that break off in the middle of a transaction.
\<close>

definition stalled :: "(bool \<times> nat) list \<Rightarrow> board" where
  "stalled segs = \<lparr>clock_us = 0, line = waveform 18030 segs, gpio_reads = 0, journal = []\<rparr>"

text \<open>The board after the start signal of a read when the sensor stays silent.\<close>

definition absent_start :: board where
  "absent_start = snd (dht22_send_start_signal 15 (quiet_end 0))"

section \<open>Waiting for an edge\<close>

lemma gpio_get_simps:
  "fst (gpio_get gpio w) = line w gpio (clock_us w)"
  "clock_us (snd (gpio_get gpio w)) = clock_us w + 1"
  "gpio_reads (snd (gpio_get gpio w)) = gpio_reads w + 1"
  "line (snd (gpio_get gpio w)) = line w"
  "journal (snd (gpio_get gpio w)) = journal w"
  "time_us_32 (snd (gpio_get gpio w)) = time_us_32 w + 1"
  by (simp_all add: gpio_get_def elapse_def time_us_32_def)

lemma snd_gpio_get: "snd (gpio_get gpio w) = advance (Suc 0) w"
  by (simp add: gpio_get_def elapse_def advance_def)

lemma advance_simps:
  "clock_us (advance k w) = clock_us w + k"
  "gpio_reads (advance k w) = gpio_reads w + k"
  "line (advance k w) = line w"
  "journal (advance k w) = journal w"
  "time_us_32 (advance k w) = time_us_32 w + of_nat k"
  "advance j (advance k w) = advance (k + j) w"
  "advance 0 w = w"
  by (simp_all add: advance_def time_us_32_def add.assoc)

lemma unat_elapsed_Suc:
  fixes e tmo :: u32
  assumes "unat e < unat tmo"
  shows "unat (e + 1) = unat e + 1"
proof -
  have "unat tmo < 2 ^ 32" using unsigned_less[of tmo] by simp
  with assms have "unat e + 1 < 2 ^ 32" by simp
  then show ?thesis by (simp add: unat_word_ariths)
qed

lemma unat_plus1:
  fixes x :: u32
  assumes "unat x < 2 ^ 32 - 1"
  shows "unat (x + 1) = unat x + 1"
proof -
  from assms have "unat x + 1 < 2 ^ 32" by simp
  then show ?thesis by (simp add: unat_word_ariths)
qed

lemma word_less_plus1:
  fixes x :: u32
  assumes "unat x < 2 ^ 32 - 1"
  shows "x < x + 1"
  using unat_plus1[OF assms] by (simp add: word_less_nat_alt)

lemma wait_loop_skip:
  assumes "\<forall>j<k. line w gpio (clock_us w + j) \<noteq> state"
    and "unat (time_us_32 w - start) + k \<le> unat timeout_us"
  shows "wait_loop gpio state timeout_us start w = wait_loop gpio state timeout_us start (advance k w)"
  using assms
proof (induction k arbitrary: w)
  case 0
  then show ?case by (simp add: advance_simps)
next
  case (Suc k)
  from Suc.prems(1) have miss: "line w gpio (clock_us w) \<noteq> state" by force
  have lt: "unat (time_us_32 w - start) < unat timeout_us" using Suc.prems(2) by simp
  have el: "unat (time_us_32 w + 1 - start) = unat (time_us_32 w - start) + 1"
    using unat_elapsed_Suc[OF lt] by (simp add: algebra_simps)
  have notover: "\<not> time_us_32 w + 1 - start > timeout_us"
    using lt el by (simp add: word_less_nat_alt)
  have step: "wait_loop gpio state timeout_us start w = wait_loop gpio state timeout_us start (advance 1 w)"
    using miss notover by (subst wait_loop.simps) (simp add: gpio_get_simps(1) snd_gpio_get advance_simps)
  have "wait_loop gpio state timeout_us start (advance 1 w)
        = wait_loop gpio state timeout_us start (advance k (advance 1 w))"
  proof (rule Suc.IH)
    show "\<forall>j<k. line (advance 1 w) gpio (clock_us (advance 1 w) + j) \<noteq> state"
      using Suc.prems(1) by (auto simp: advance_simps)
    show "unat (time_us_32 (advance 1 w) - start) + k \<le> unat timeout_us"
      using Suc.prems(2) el by (simp add: advance_simps)
  qed
  with step show ?case by (simp add: advance_simps)
qed

lemma wait_loop_hit:
  assumes "line w gpio (clock_us w) = state"
  shows "wait_loop gpio state timeout_us start w = Some (0, advance (Suc 0) w)"
  using assms by (subst wait_loop.simps) (simp add: gpio_get_simps(1) snd_gpio_get advance_simps)

lemma wait_loop_over:
  assumes "line w gpio (clock_us w) \<noteq> state" "time_us_32 w + 1 - start > timeout_us"
  shows "wait_loop gpio state timeout_us start w = Some (- 1, advance (Suc 0) w)"
  using assms by (subst wait_loop.simps) (simp add: gpio_get_simps(1) snd_gpio_get advance_simps)

lemma wait_for_pin_state_edge:
  assumes "\<forall>j<k. line w gpio (clock_us w + j) \<noteq> state"
    and "line w gpio (clock_us w + k) = state"
    and "k \<le> unat timeout_us"
  shows "wait_for_pin_state gpio state timeout_us w = Some (0, advance (Suc k) w)"
proof -
  have "wait_loop gpio state timeout_us (time_us_32 w) w
        = wait_loop gpio state timeout_us (time_us_32 w) (advance k w)"
    using assms by (intro wait_loop_skip) simp_all
  also have "\<dots> = Some (0, advance (Suc 0) (advance k w))"
    using assms(2) by (intro wait_loop_hit) (simp add: advance_simps)
  finally show ?thesis by (simp add: wait_for_pin_state_def advance_simps)
qed


lemma wait_for_pin_state_timeout:
  assumes "\<forall>j\<le>unat timeout_us. line w gpio (clock_us w + j) \<noteq> state"
    and "unat timeout_us < 2 ^ 32 - 1"
  shows "wait_for_pin_state gpio state timeout_us w = Some (- 1, advance (Suc (unat timeout_us)) w)"
proof -
  let ?k = "unat timeout_us"
  have "wait_loop gpio state timeout_us (time_us_32 w) w
        = wait_loop gpio state timeout_us (time_us_32 w) (advance ?k w)"
    using assms by (intro wait_loop_skip) simp_all
  also have "\<dots> = Some (- 1, advance (Suc 0) (advance ?k w))"
  proof (rule wait_loop_over)
    show "line (advance ?k w) gpio (clock_us (advance ?k w)) \<noteq> state"
      using assms(1) by (simp add: advance_simps)
    have eq: "time_us_32 (advance ?k w) + 1 - time_us_32 w = timeout_us + 1"
      by (simp add: advance_simps(5))
    show "timeout_us < time_us_32 (advance ?k w) + 1 - time_us_32 w"
      unfolding eq by (rule word_less_plus1[OF assms(2)])
  qed
  finally show ?thesis by (simp add: wait_for_pin_state_def advance_simps)
qed

lemma wait_loop_total:
  assumes "unat timeout_us < 2 ^ 32 - 1"
    and "unat (time_us_32 w - start) \<le> unat timeout_us"
  shows "\<exists>r k. wait_loop gpio state timeout_us start w = Some (r, advance (Suc k) w) \<and> (r = 0 \<or> r = - 1)"
  using assms(2)
proof (induction n \<equiv> "unat timeout_us - unat (time_us_32 w - start)" arbitrary: w)
  case 0
  then have eq: "unat (time_us_32 w - start) = unat timeout_us" by simp
  show ?case
  proof (cases "line w gpio (clock_us w) = state")
    case True
    then show ?thesis using wait_loop_hit by blast
  next
    case False
    from eq have "time_us_32 w - start = timeout_us" by (rule word_unat_eq_iff[THEN iffD2])
    then have "time_us_32 w + 1 - start = timeout_us + 1" by (simp add: algebra_simps)
    then have "timeout_us < time_us_32 w + 1 - start"
      using word_less_plus1[OF assms(1)] by metis
    with False show ?thesis using wait_loop_over by blast
  qed
next
  case (Suc n)
  then have lt: "unat (time_us_32 w - start) < unat timeout_us" by simp
  show ?case
  proof (cases "line w gpio (clock_us w) = state")
    case True
    then show ?thesis using wait_loop_hit by blast
  next
    case False
    have "unat (time_us_32 w - start + 1) = unat (time_us_32 w - start) + 1"
      by (rule unat_elapsed_Suc[OF lt])
    then have el: "unat (time_us_32 (advance (Suc 0) w) - start) = unat (time_us_32 w - start) + 1"
      by (simp add: advance_simps(5) algebra_simps)
    have step: "wait_loop gpio state timeout_us start w = wait_loop gpio state timeout_us start (advance (Suc 0) w)"
      using wait_loop_skip[of "Suc 0" w gpio state start timeout_us] False lt by simp
    have "\<exists>r k. wait_loop gpio state timeout_us start (advance (Suc 0) w) = Some (r, advance (Suc k) (advance (Suc 0) w)) \<and> (r = 0 \<or> r = - 1)"
    proof (rule Suc.hyps(1))
      show "n = unat timeout_us - unat (time_us_32 (advance (Suc 0) w) - start)"
        using Suc.hyps(2) el by simp
      show "unat (time_us_32 (advance (Suc 0) w) - start) \<le> unat timeout_us"
        using lt el by simp
    qed
    then obtain r k where "wait_loop gpio state timeout_us start (advance (Suc 0) w) = Some (r, advance (Suc k) (advance (Suc 0) w))" "r = 0 \<or> r = - 1"
      by blast
    then have "wait_loop gpio state timeout_us start w = Some (r, advance (Suc (Suc k)) w) \<and> (r = 0 \<or> r = - 1)"
      using step by (simp add: advance_simps(6))
    then show ?thesis by blast
  qed
qed

lemma wait_for_pin_state_total:
  assumes "unat timeout_us < 2 ^ 32 - 1"
  shows "\<exists>r k. wait_for_pin_state gpio state timeout_us w = Some (r, advance (Suc k) w) \<and> (r = 0 \<or> r = - 1)"
  unfolding wait_for_pin_state_def using wait_loop_total[OF assms, of w "time_us_32 w"] by simp

section \<open>The driver on the simulated sensor\<close>

lemma drives_zero: "drives gpio w ((l, 0) # segs) = drives gpio w segs"
  by (simp add: drives_def)

lemma drives_advance:
  assumes "drives gpio w ((l, d + k) # segs)"
  shows "drives gpio (advance k w) ((l, d) # segs)"
  unfolding drives_def
proof
  fix j
  have "line w gpio (clock_us w + (k + j)) = level_at ((l, d + k) # segs) (k + j)"
    using assms by (simp add: drives_def)
  then show "line (advance k w) gpio (clock_us (advance k w) + j) = level_at ((l, d) # segs) j"
    by (simp add: advance_simps add.assoc)
qed

lemma drives_head:
  assumes "drives gpio w ((l, d) # segs)" "j < d"
  shows "line w gpio (clock_us w + j) = l"
  using assms by (simp add: drives_def)

lemma drives_next:
  assumes "drives gpio w ((l, d) # (l', Suc d') # segs)"
  shows "line w gpio (clock_us w + d) = l'"
  using assms by (simp add: drives_def)

lemma wait_hit_sim:
  assumes "drives gpio w ((l, Suc d) # segs)"
  shows "wait_for_pin_state gpio l tmo w = Some (0, advance (Suc 0) w)"
    and "drives gpio (advance (Suc 0) w) ((l, d) # segs)"
proof -
  have "line w gpio (clock_us w + 0) = l" using drives_head[OF assms, of 0] by simp
  then show "wait_for_pin_state gpio l tmo w = Some (0, advance (Suc 0) w)"
    using wait_for_pin_state_edge[of 0 w gpio l tmo] by simp
  show "drives gpio (advance (Suc 0) w) ((l, d) # segs)"
    using drives_advance[of gpio w l d "Suc 0" segs] assms by simp
qed

lemma wait_skip_sim:
  assumes "drives gpio w ((l, d) # (\<not> l, Suc d') # segs)" "d \<le> unat tmo"
  shows "wait_for_pin_state gpio (\<not> l) tmo w = Some (0, advance (Suc d) w)"
    and "drives gpio (advance (Suc d) w) ((\<not> l, d') # segs)"
proof -
  have miss: "\<forall>j<d. line w gpio (clock_us w + j) \<noteq> (\<not> l)"
    using drives_head[OF assms(1)] by simp
  have hit: "line w gpio (clock_us w + d) = (\<not> l)"
    using drives_next[OF assms(1)] .
  show "wait_for_pin_state gpio (\<not> l) tmo w = Some (0, advance (Suc d) w)"
    using wait_for_pin_state_edge[OF miss hit assms(2)] .
  have "drives gpio (advance d w) ((l, 0) # (\<not> l, Suc d') # segs)"
    using drives_advance[of gpio w l 0 d] assms(1) by simp
  then have "drives gpio (advance d w) ((\<not> l, d' + Suc 0) # segs)"
    by (simp add: drives_zero)
  then have "drives gpio (advance (Suc 0) (advance d w)) ((\<not> l, d') # segs)"
    by (rule drives_advance)
  then show "drives gpio (advance (Suc d) w) ((\<not> l, d') # segs)"
    by (simp add: advance_simps)
qed

lemma timeout_200 [simp]: "unat DHT22_RESPONSE_WAIT_TIMEOUT = 200"
  by (simp add: DHT22_RESPONSE_WAIT_TIMEOUT_def)

lemma handshake_sim:
  assumes "drives gpio w ((False, 1) # (True, 1) # (False, 1) # segs)"
  shows "dht22_wait_for_response gpio w = Some (DHT22_OK, advance 3 w)"
    and "drives gpio (advance 3 w) segs"
proof -
  let ?T = DHT22_RESPONSE_WAIT_TIMEOUT
  from assms have d0: "drives gpio w ((False, Suc 0) # (True, 1) # (False, 1) # segs)" by simp
  note s1 = wait_hit_sim(1)[OF d0, of ?T] wait_hit_sim(2)[OF d0]
  from s1(2) have d1: "drives gpio (advance (Suc 0) w) ((True, Suc 0) # (False, 1) # segs)"
    by (simp add: drives_zero)
  note s2 = wait_hit_sim(1)[OF d1, of ?T] wait_hit_sim(2)[OF d1]
  from s2(2) have d2: "drives gpio (advance (Suc 0) (advance (Suc 0) w)) ((False, Suc 0) # segs)"
    by (simp add: drives_zero)
  note s3 = wait_hit_sim(1)[OF d2, of ?T] wait_hit_sim(2)[OF d2]
  have "dht22_wait_for_response gpio w
        = Some (DHT22_OK, advance (Suc 0) (advance (Suc 0) (advance (Suc 0) w)))"
    by (simp add: dht22_wait_for_response_def s1(1) s2(1) s3(1))
  then show "dht22_wait_for_response gpio w = Some (DHT22_OK, advance 3 w)"
    by (simp add: advance_simps(6) numeral_3_eq_3)
  from s3(2) show "drives gpio (advance 3 w) segs"
    by (simp add: drives_zero advance_simps(6) numeral_3_eq_3)
qed

lemma measure_pulse_sim:
  assumes "drives gpio w ((True, Suc n) # (False, 1) # segs)" "n \<le> 200"
  shows "measure_pulse gpio w = Some (Inr (of_nat (Suc n)), advance (Suc (Suc n)) w)"
    and "drives gpio (advance (Suc (Suc n)) w) segs"
proof -
  let ?T = DHT22_RESPONSE_WAIT_TIMEOUT
  note s1 = wait_hit_sim(1)[OF assms(1), of ?T] wait_hit_sim(2)[OF assms(1)]
  from s1(2) have d1: "drives gpio (advance (Suc 0) w) ((True, n) # (\<not> True, Suc 0) # segs)"
    by simp
  have "n \<le> unat ?T" using assms(2) by simp
  note s2 = wait_skip_sim[OF d1 this]
  have len: "time_us_32 (advance (Suc n) (advance (Suc 0) w)) - time_us_32 (advance (Suc 0) w)
             = of_nat (Suc n)"
    by (simp add: advance_simps(5))
  have "measure_pulse gpio w
        = Some (Inr (of_nat (Suc n)), advance (Suc n) (advance (Suc 0) w))"
    using s1(1) s2(1) len by (simp add: measure_pulse_def)
  then show "measure_pulse gpio w = Some (Inr (of_nat (Suc n)), advance (Suc (Suc n)) w)"
    by (simp add: advance_simps(6))
  from s2(2) show "drives gpio (advance (Suc (Suc n)) w) segs"
    by (simp add: drives_zero advance_simps(6))
qed

lemma capture_sim:
  assumes "drives gpio w (pulses hs)" "i + length hs = 40" "\<forall>h\<in>set hs. 0 < h \<and> h \<le> 200"
  shows "read_data_loop gpio i data w
         = Some (DHT22_OK, store_bits i (map of_nat hs) data, advance (sum_list hs + length hs) w)"
  using assms
proof (induction hs arbitrary: i data w)
  case Nil
  then show ?case by (simp add: read_data_loop.simps advance_simps)
next
  case (Cons h hs)
  from Cons.prems(3) obtain n where h: "h = Suc n" "n \<le> 200"
    by (cases h) auto
  from Cons.prems(1) have d: "drives gpio w ((True, Suc n) # (False, 1) # pulses hs)"
    by (simp add: h)
  note m = measure_pulse_sim[OF d h(2)]
  have "read_data_loop gpio (Suc i) (store_bit i (of_nat h) data) (advance (Suc h) w)
        = Some (DHT22_OK, store_bits (Suc i) (map of_nat hs) (store_bit i (of_nat h) data),
                advance (sum_list hs + length hs) (advance (Suc h) w))"
    using Cons.prems m(2) by (intro Cons.IH) (simp_all add: h)
  moreover have "i < 40" using Cons.prems(2) by simp
  ultimately show ?case
    using m(1) by (subst read_data_loop.simps) (simp add: h advance_simps(6) add_ac)
qed

lemma pulse_lengths_sim:
  assumes "drives gpio w (pulses hs)" "\<forall>h\<in>set hs. 0 < h \<and> h \<le> 200"
  shows "pulse_lengths gpio (length hs) w = map of_nat hs"
  using assms
proof (induction hs arbitrary: w)
  case Nil
  then show ?case by simp
next
  case (Cons h hs)
  from Cons.prems(2) obtain n where h: "h = Suc n" "n \<le> 200"
    by (cases h) auto
  from Cons.prems(1) have d: "drives gpio w ((True, Suc n) # (False, 1) # pulses hs)"
    by (simp add: h)
  note m = measure_pulse_sim[OF d h(2)]
  have "pulse_lengths gpio (length hs) (advance (Suc h) w) = map of_nat hs"
    using Cons.prems m(2) by (intro Cons.IH) (simp_all add: h)
  then show ?case using m(1) by (simp add: h)
qed

section \<open>Every stage of a read returns\<close>

lemma timeout_small: "unat DHT22_RESPONSE_WAIT_TIMEOUT < 2 ^ 32 - 1"
  by simp

lemma wait_200_total:
  "\<exists>r k. wait_for_pin_state gpio state DHT22_RESPONSE_WAIT_TIMEOUT w = Some (r, advance k w)
         \<and> (r = 0 \<or> r = - 1)"
  using wait_for_pin_state_total[OF timeout_small, of gpio state w] by blast

lemma dht22_wait_for_response_total:
  "\<exists>rc k. dht22_wait_for_response gpio w = Some (rc, advance k w)
          \<and> (rc = DHT22_OK \<or> rc = DHT22_ERROR_TIMEOUT)"
proof -
  let ?T = DHT22_RESPONSE_WAIT_TIMEOUT
  obtain r1 k1 where 1: "wait_for_pin_state gpio False ?T w = Some (r1, advance k1 w)"
    using wait_200_total by blast
  obtain r2 k2 where 2: "wait_for_pin_state gpio True ?T (advance k1 w) = Some (r2, advance k2 (advance k1 w))"
    using wait_200_total by blast
  obtain r3 k3 where 3: "wait_for_pin_state gpio False ?T (advance k2 (advance k1 w))
      = Some (r3, advance k3 (advance k2 (advance k1 w)))"
    using wait_200_total by blast
  have "dht22_wait_for_response gpio w =
        (if r1 \<noteq> 0 then Some (DHT22_ERROR_TIMEOUT, advance k1 w)
         else if r2 \<noteq> 0 then Some (DHT22_ERROR_TIMEOUT, advance k2 (advance k1 w))
         else if r3 \<noteq> 0 then Some (DHT22_ERROR_TIMEOUT, advance k3 (advance k2 (advance k1 w)))
         else Some (DHT22_OK, advance k3 (advance k2 (advance k1 w))))"
    by (simp add: dht22_wait_for_response_def 1 2 3)
  then show ?thesis
    by (metis advance_simps(6))
qed

lemma measure_pulse_total: "\<exists>r k. measure_pulse gpio w = Some (r, advance k w)"
proof -
  let ?T = DHT22_RESPONSE_WAIT_TIMEOUT
  obtain r1 k1 where 1: "wait_for_pin_state gpio True ?T w = Some (r1, advance k1 w)"
    using wait_200_total by blast
  obtain r2 k2 where 2: "wait_for_pin_state gpio False ?T (advance k1 w) = Some (r2, advance k2 (advance k1 w))"
    using wait_200_total by blast
  have "measure_pulse gpio w =
        (if r1 \<noteq> 0 then Some (Inl (), advance k1 w)
         else if r2 \<noteq> 0 then Some (Inl (), advance k2 (advance k1 w))
         else Some (Inr (time_us_32 (advance k2 (advance k1 w)) - time_us_32 (advance k1 w)),
                    advance k2 (advance k1 w)))"
    by (simp add: measure_pulse_def 1 2)
  then show ?thesis
    by (metis advance_simps(6))
qed

lemma length_store_bit [simp]: "length (store_bit i l data) = length data"
  by (simp add: store_bit_def)

lemma length_store_bits [simp]: "length (store_bits i ls data) = length data"
  by (induction ls arbitrary: i data) simp_all

lemma store_bits_snoc: "store_bits i (ls @ [l]) data = store_bit (i + length ls) l (store_bits i ls data)"
  by (induction ls arbitrary: i data) simp_all

lemma read_data_loop_total:
  "\<exists>rc d k. read_data_loop gpio i data w = Some (rc, d, advance k w)
     \<and> (rc = DHT22_OK \<or> rc = DHT22_ERROR_TIMEOUT) \<and> length d = length data
     \<and> (rc = DHT22_OK \<longrightarrow> length (pulse_lengths gpio (40 - i) w) = 40 - i
           \<and> d = store_bits i (pulse_lengths gpio (40 - i) w) data)"
proof (induction n \<equiv> "40 - i" arbitrary: i data w)
  case 0
  then have "\<not> i < 40" by simp
  then have "read_data_loop gpio i data w = Some (DHT22_OK, data, advance 0 w)"
    by (subst read_data_loop.simps) (simp add: advance_simps(7))
  with 0 show ?case by (metis length_0_conv pulse_lengths.simps(1) store_bits.simps(1) list.size(3))
next
  case (Suc n)
  then have i: "i < 40" "40 - i = Suc n" "n = 40 - Suc i" by simp_all
  obtain r k where m: "measure_pulse gpio w = Some (r, advance k w)"
    using measure_pulse_total by blast
  show ?case
  proof (cases r)
    case (Inl u)
    then have "read_data_loop gpio i data w = Some (DHT22_ERROR_TIMEOUT, data, advance k w)"
      using i(1) m by (subst read_data_loop.simps) simp
    then show ?thesis by blast
  next
    case (Inr l)
    from Suc.hyps(1)[OF i(3), of "store_bit i l data" "advance k w"]
    obtain rc d k' where ih: "read_data_loop gpio (Suc i) (store_bit i l data) (advance k w)
          = Some (rc, d, advance k' (advance k w))"
        "rc = DHT22_OK \<or> rc = DHT22_ERROR_TIMEOUT" "length d = length data"
        "rc = DHT22_OK \<longrightarrow> length (pulse_lengths gpio (40 - Suc i) (advance k w)) = 40 - Suc i
           \<and> d = store_bits (Suc i) (pulse_lengths gpio (40 - Suc i) (advance k w)) (store_bit i l data)"
      by auto
    have run: "read_data_loop gpio i data w = Some (rc, d, advance (k + k') w)"
      using i(1) m Inr ih(1) by (subst read_data_loop.simps) (simp add: advance_simps(6))
    have pl: "pulse_lengths gpio (40 - i) w = l # pulse_lengths gpio (40 - Suc i) (advance k w)"
      using m Inr i by simp
    show ?thesis
      using run ih(2,3,4) pl i by auto
  qed
qed

lemma start_signal_simps:
  "fst (dht22_send_start_signal gpio w) = DHT22_OK"
  "clock_us (snd (dht22_send_start_signal gpio w)) = clock_us w + 18030"
  "line (snd (dht22_send_start_signal gpio w)) = line w"
  "gpio_reads (snd (dht22_send_start_signal gpio w)) = gpio_reads w"
  "journal (snd (dht22_send_start_signal gpio w)) = start_events gpio @ journal w"
  by (simp_all add: dht22_send_start_signal_def gpio_set_dir_def sleep_us_def gpio_put_def
      log_call_def elapse_def DHT22_START_SIGNAL_DELAY_def start_events_def)

lemma read_frame_total:
  "\<exists>rc d k. read_frame s w
       = Some (rc, d, advance k (snd (dht22_send_start_signal (pin s) (rate_limit s w))))
     \<and> (rc = DHT22_OK \<or> rc = DHT22_ERROR_TIMEOUT) \<and> length d = 5"
proof -
  let ?w3 = "snd (dht22_send_start_signal (pin s) (rate_limit s w))"
  obtain r4 k4 where 4: "dht22_wait_for_response (pin s) ?w3 = Some (r4, advance k4 ?w3)"
      "r4 = DHT22_OK \<or> r4 = DHT22_ERROR_TIMEOUT"
    using dht22_wait_for_response_total by blast
  obtain r5 d k5 where 5: "read_data_loop (pin s) 0 [0, 0, 0, 0, 0] (advance k4 ?w3)
        = Some (r5, d, advance k5 (advance k4 ?w3))"
      "r5 = DHT22_OK \<or> r5 = DHT22_ERROR_TIMEOUT" "length d = length [0 :: u8, 0, 0, 0, 0]"
    using read_data_loop_total by blast
  have "read_frame s w = (if r4 \<noteq> DHT22_OK then Some (r4, [0, 0, 0, 0, 0], advance k4 ?w3)
                          else Some (r5, d, advance (k4 + k5) ?w3))"
    by (simp add: read_frame_def 4(1) 5(1) dht22_read_data_def advance_simps(6))
  then show ?thesis using 4(2) 5(2,3)
    by (cases "r4 = DHT22_OK") auto
qed

lemma dht22_read_stages:
  assumes "initialized s"
  shows "dht22_read s w =
     (case dht22_wait_for_response (pin s)
             (snd (dht22_send_start_signal (pin s) (rate_limit s w))) of
        None \<Rightarrow> None
      | Some (r4, w4) \<Rightarrow>
          if r4 \<noteq> DHT22_OK then Some (r4, None, s, w4)
          else
            (case dht22_read_data (pin s) [0, 0, 0, 0, 0] w4 of
               None \<Rightarrow> None
             | Some (r5, data, w5) \<Rightarrow>
                 if r5 \<noteq> DHT22_OK then Some (r5, None, s, w5)
                 else if dht22_verify_checksum data \<noteq> DHT22_OK
                 then Some (dht22_verify_checksum data, None,
                            s\<lparr>last_read_time_ms := ms_since_boot w5\<rparr>, w5)
                 else Some (fst (dht22_convert_data data),
                            Some (snd (dht22_convert_data data)),
                            s\<lparr>last_read_time_ms := ms_since_boot w5\<rparr>, w5)))"
  using assms
  by (simp add: dht22_read_def rate_limit_def[symmetric] Let_def start_signal_simps(1)
      split: option.splits)

lemma dht22_read_unfold:
  assumes "initialized s"
  shows "dht22_read s w =
     (case read_frame s w of
        None \<Rightarrow> None
      | Some (frc, data, w5) \<Rightarrow>
          if frc \<noteq> DHT22_OK then Some (frc, None, s, w5)
          else if dht22_verify_checksum data \<noteq> DHT22_OK
          then Some (dht22_verify_checksum data, None,
                     s\<lparr>last_read_time_ms := ms_since_boot w5\<rparr>, w5)
          else Some (fst (dht22_convert_data data), Some (snd (dht22_convert_data data)),
                     s\<lparr>last_read_time_ms := ms_since_boot w5\<rparr>, w5))"
  unfolding dht22_read_stages[OF assms] read_frame_def
  by (simp split: option.splits)

lemma verify_checksum_cases:
  "dht22_verify_checksum data = DHT22_OK \<or> dht22_verify_checksum data = DHT22_ERROR_CHECKSUM"
  by (simp add: dht22_verify_checksum_def Let_def)

lemma convert_cases:
  "fst (dht22_convert_data data) = DHT22_OK \<or> fst (dht22_convert_data data) = DHT22_ERROR_INVALID_DATA"
  by (simp add: dht22_convert_data_def Let_def)

lemma journal_advance_start:
  "journal (advance k (snd (dht22_send_start_signal gpio w))) = start_events gpio @ journal w"
  by (simp add: advance_simps(4) start_signal_simps(5))

lemma drives_pulses_end:
  assumes "drives gpio w (pulses hs)"
  shows "drives gpio (advance (sum_list hs + length hs) w) []"
  unfolding drives_def
proof
  fix j
  have "level_at (pulses hs) (sum_list hs + length hs + j) = True"
    by (induction hs) (simp_all add: ac_simps)
  then show "line (advance (sum_list hs + length hs) w) gpio
               (clock_us (advance (sum_list hs + length hs) w) + j) = level_at [] j"
    using assms by (simp add: drives_def advance_simps add.assoc)
qed

lemma drives_idle_later:
  assumes "drives gpio w []" "line w' = line w" "clock_us w \<le> clock_us w'"
  shows "drives gpio w' []"
  unfolding drives_def
proof
  fix j
  have "clock_us w' + j = clock_us w + (clock_us w' - clock_us w + j)"
    using assms(3) by simp
  moreover have "line w gpio (clock_us w + (clock_us w' - clock_us w + j)) = True"
    using assms(1) by (simp add: drives_def)
  ultimately show "line w' gpio (clock_us w' + j) = level_at [] j"
    using assms(2) by simp
qed

lemma read_frame_sim:
  assumes "drives (pin s) (snd (dht22_send_start_signal (pin s) (rate_limit s w))) (answer hs)"
    and "length hs = 40" "\<forall>h\<in>set hs. 0 < h \<and> h \<le> 200"
  shows "read_frame s w
         = Some (DHT22_OK, store_bits 0 (map of_nat hs) [0, 0, 0, 0, 0],
                 advance (43 + sum_list hs)
                   (snd (dht22_send_start_signal (pin s) (rate_limit s w))))"
proof -
  let ?w3 = "snd (dht22_send_start_signal (pin s) (rate_limit s w))"
  from assms(1) have d: "drives (pin s) ?w3 ((False, 1) # (True, 1) # (False, 1) # pulses hs)"
    by (simp add: answer_def)
  note h = handshake_sim[OF d]
  have "read_data_loop (pin s) 0 [0, 0, 0, 0, 0] (advance 3 ?w3)
        = Some (DHT22_OK, store_bits 0 (map of_nat hs) [0, 0, 0, 0, 0],
                advance (sum_list hs + length hs) (advance 3 ?w3))"
    using h(2) assms(2,3) by (intro capture_sim) simp_all
  then show ?thesis
    using h(1) assms(2) by (simp add: read_frame_def dht22_read_data_def advance_simps(6) add_ac)
qed

lemma read_frame_absent:
  assumes "drives (pin s) (snd (dht22_send_start_signal (pin s) (rate_limit s w))) []"
  shows "read_frame s w
         = Some (DHT22_ERROR_TIMEOUT, [0, 0, 0, 0, 0],
                 advance 201 (snd (dht22_send_start_signal (pin s) (rate_limit s w))))"
proof -
  let ?w3 = "snd (dht22_send_start_signal (pin s) (rate_limit s w))"
  have "\<forall>j\<le>unat DHT22_RESPONSE_WAIT_TIMEOUT. line ?w3 (pin s) (clock_us ?w3 + j) \<noteq> False"
    using assms by (simp add: drives_def)
  from wait_for_pin_state_timeout[OF this timeout_small]
  have "wait_for_pin_state (pin s) False DHT22_RESPONSE_WAIT_TIMEOUT ?w3
        = Some (- 1, advance 201 ?w3)"
    by simp
  then show ?thesis
    by (simp add: read_frame_def dht22_wait_for_response_def)
qed

lemma rate_limit_first: "last_read_time_ms s = 0 \<Longrightarrow> rate_limit s w = w"
  by (simp add: rate_limit_def)

lemma bench_drives:
  "drives gpio (snd (dht22_send_start_signal gpio (bench t hs))) (answer hs)"
  by (simp add: drives_def start_signal_simps bench_def waveform_def)

lemma read_frame_bench:
  assumes "last_read_time_ms s = 0" "length hs = 40" "\<forall>h\<in>set hs. 0 < h \<and> h \<le> 200"
  shows "read_frame s (bench t hs)
         = Some (DHT22_OK, store_bits 0 (map of_nat hs) [0, 0, 0, 0, 0],
                 advance (43 + sum_list hs) (snd (dht22_send_start_signal (pin s) (bench t hs))))"
  using read_frame_sim[of s "bench t hs" hs] bench_drives[of "pin s" t hs] assms
  by (simp add: rate_limit_first)

section \<open>Runs on the test benches\<close>

lemma ready_simps [simp]:
  "initialized ready" "pin ready = 15" "last_read_time_ms ready = 0"
  by (simp_all add: ready_def)

lemma ready_is_init: "fst (snd (dht22_init 15 dht22_state w)) = ready"
  by (simp add: dht22_init_def dht22_state_def ready_def)

lemma store_bits_append:
  "store_bits i (xs @ ys) data = store_bits (i + length xs) ys (store_bits i xs data)"
  by (induction xs arbitrary: i data) simp_all

lemma store_bits_short:
  assumes "\<forall>l\<in>set ls. \<not> DHT22_BIT_THRESHOLD < l"
  shows "store_bits i ls data = data"
  using assms by (induction ls arbitrary: i) (simp_all add: store_bit_def)

lemma store_bits_replicate_1 [simp]: "store_bits i (replicate n 1) data = data"
  by (rule store_bits_short) (simp add: DHT22_BIT_THRESHOLD_def)

lemma skewed_frame: "store_bits 0 (map of_nat skewed_pulses) [0, 0, 0, 0, 0] = [0x40, 0, 0, 0, 0]"
  by (simp add: skewed_pulses_def store_bit_def DHT22_BIT_THRESHOLD_def)

lemma quiet_frame: "store_bits 0 (map of_nat quiet_pulses) [0, 0, 0, 0, 0] = [0, 0, 0, 0, 0]"
  by (simp add: quiet_pulses_def)

lemma humid_frame: "store_bits 0 (map of_nat humid_pulses) [0, 0, 0, 0, 0] = [0x05, 0xDC, 0, 0, 0xE1]"
  by (simp add: humid_pulses_def store_bits_append store_bit_def DHT22_BIT_THRESHOLD_def)

lemma pulses_ok:
  "length skewed_pulses = 40" "\<forall>h\<in>set skewed_pulses. 0 < h \<and> h \<le> 200" "sum_list skewed_pulses = 138"
  "length quiet_pulses = 40" "\<forall>h\<in>set quiet_pulses. 0 < h \<and> h \<le> 200" "sum_list quiet_pulses = 40"
  "length humid_pulses = 40" "\<forall>h\<in>set humid_pulses. 0 < h \<and> h \<le> 200" "sum_list humid_pulses = 590"
  by (simp_all add: skewed_pulses_def quiet_pulses_def humid_pulses_def sum_list_replicate)

lemma start_board_bench:
  "snd (dht22_send_start_signal gpio (bench t hs))
   = \<lparr>clock_us = t + 18030, line = waveform (t + 18030) (answer hs), gpio_reads = 0,
      journal = start_events gpio\<rparr>"
  by (simp add: dht22_send_start_signal_def gpio_set_dir_def sleep_us_def gpio_put_def
      log_call_def elapse_def DHT22_START_SIGNAL_DELAY_def start_events_def bench_def)

lemma skewed_run:
  "read_frame ready (bench 5000 skewed_pulses) = Some (DHT22_OK, [0x40, 0, 0, 0, 0], skewed_end)"
proof -
  have "read_frame ready (bench 5000 skewed_pulses)
        = Some (DHT22_OK, store_bits 0 (map of_nat skewed_pulses) [0, 0, 0, 0, 0],
            advance (43 + sum_list skewed_pulses)
              (snd (dht22_send_start_signal (pin ready) (bench 5000 skewed_pulses))))"
    by (rule read_frame_bench) (simp_all add: pulses_ok)
  then show ?thesis
    by (simp add: skewed_frame start_board_bench advance_def pulses_ok skewed_end_def)
qed

lemma skewed_checksum: "dht22_verify_checksum [0x40, 0, 0, 0, 0] = DHT22_ERROR_CHECKSUM"
  by (simp add: dht22_verify_checksum_def)

lemma level_at_pulses_end: "level_at (pulses hs) (sum_list hs + length hs + j) = True"
  by (induction hs) (simp_all add: ac_simps)

lemma level_at_answer_end: "level_at (answer hs) (3 + sum_list hs + length hs + j) = True"
  using level_at_pulses_end[of hs j] by (simp add: answer_def ac_simps)

lemma convert_zero: "dht22_convert_data [0, 0, 0, 0, 0] = (DHT22_OK, 0, 0)"
  by (simp add: dht22_convert_data_def double_of_int_def double_mul_def to_double_def
      to_float_def fp_round_def)

lemma verify_zero: "dht22_verify_checksum [0, 0, 0, 0, 0] = DHT22_OK"
  by (simp add: dht22_verify_checksum_def)

lemma quiet_run:
  "read_frame ready (bench t quiet_pulses) = Some (DHT22_OK, [0, 0, 0, 0, 0], quiet_end t)"
proof -
  have "read_frame ready (bench t quiet_pulses)
        = Some (DHT22_OK, store_bits 0 (map of_nat quiet_pulses) [0, 0, 0, 0, 0],
            advance (43 + sum_list quiet_pulses)
              (snd (dht22_send_start_signal (pin ready) (bench t quiet_pulses))))"
    by (rule read_frame_bench) (simp_all add: pulses_ok)
  then show ?thesis
    by (simp add: quiet_frame start_board_bench advance_def pulses_ok quiet_end_def)
qed

lemma quiet_read:
  "dht22_read ready (bench t quiet_pulses)
   = Some (DHT22_OK, Some (0, 0),
           ready\<lparr>last_read_time_ms := ms_since_boot (quiet_end t)\<rparr>, quiet_end t)"
  by (simp add: dht22_read_unfold quiet_run verify_zero convert_zero)

lemma quiet_end_idle:
  "drives 15 (snd (dht22_send_start_signal 15 (quiet_end t))) []"
proof -
  have "level_at (answer quiet_pulses) (18113 + j)" for j
    using level_at_answer_end[of quiet_pulses "18030 + j"] by (simp add: pulses_ok)
  moreover have "t + 18113 + 18030 + j - (t + 18030) = 18113 + j" for j by simp
  ultimately show ?thesis
    by (simp add: drives_def start_signal_simps quiet_end_def waveform_def)
qed

lemma humid_run:
  "read_frame ready (bench 5000 humid_pulses) = Some (DHT22_OK, [0x05, 0xDC, 0, 0, 0xE1], humid_end)"
proof -
  have "read_frame ready (bench 5000 humid_pulses)
        = Some (DHT22_OK, store_bits 0 (map of_nat humid_pulses) [0, 0, 0, 0, 0],
            advance (43 + sum_list humid_pulses)
              (snd (dht22_send_start_signal (pin ready) (bench 5000 humid_pulses))))"
    by (rule read_frame_bench) (simp_all add: pulses_ok)
  then show ?thesis
    by (simp add: humid_frame start_board_bench advance_def pulses_ok humid_end_def)
qed

lemma verify_checksum_iff:
  "dht22_verify_checksum data = DHT22_OK
   \<longleftrightarrow> unat (data ! 4) = (unat (data ! 0) + unat (data ! 1) + unat (data ! 2) + unat (data ! 3)) mod 256"
proof -
  define n where "n = unat (data ! 0) + unat (data ! 1) + unat (data ! 2) + unat (data ! 3)"
  have "(word_of_nat n :: u8) = data ! 4 \<longleftrightarrow> unat (word_of_nat n :: u8) = unat (data ! 4)"
    by (rule word_unat_eq_iff)
  also have "unat (word_of_nat n :: u8) = n mod 256"
    by (subst unat_of_nat) simp
  finally have "(word_of_nat n :: u8) = data ! 4 \<longleftrightarrow> unat (data ! 4) = n mod 256"
    by auto
  moreover have "dht22_verify_checksum data = DHT22_OK \<longleftrightarrow> (word_of_nat n :: u8) = data ! 4"
    unfolding dht22_verify_checksum_def Let_def n_def by (simp del: of_nat_add)
  ultimately show ?thesis unfolding n_def by blast
qed

section \<open>Bits of the payload\<close>

lemma bit_or_mask:
  fixes x :: u8
  assumes "k < 8"
  shows "bit (x OR push_bit k 1) m \<longleftrightarrow> bit x m \<or> m = k"
  using assms by (auto simp: bit_or_iff bit_exp_iff possible_bit_word)

lemma payload_bit_store_bit:
  assumes "length data = 5" "i < 40" "j < 40"
  shows "payload_bit (store_bit i l data) j
         \<longleftrightarrow> payload_bit data j \<or> (j = i \<and> DHT22_BIT_THRESHOLD < l)"
proof (cases "DHT22_BIT_THRESHOLD < l")
  case False
  then show ?thesis by (simp add: store_bit_def)
next
  case True
  have len: "i div 8 < length data" using assms(1,2) by simp
  have pos: "j div 8 = i div 8 \<and> 7 - j mod 8 = 7 - i mod 8 \<longleftrightarrow> j = i"
  proof
    assume a: "j div 8 = i div 8 \<and> 7 - j mod 8 = 7 - i mod 8"
    have "j mod 8 < 8" "i mod 8 < 8" by simp_all
    with a have m: "j mod 8 = i mod 8" by linarith
    have "j = 8 * (j div 8) + j mod 8" by simp
    also have "\<dots> = 8 * (i div 8) + i mod 8" using a m by simp
    finally show "j = i" by simp
  qed auto
  show ?thesis
  proof (cases "j div 8 = i div 8")
    case same: True
    have "payload_bit (store_bit i l data) j
          \<longleftrightarrow> bit (data ! (i div 8) OR push_bit (7 - i mod 8) 1) (7 - j mod 8)"
      using True len same by (simp add: store_bit_def payload_bit_def)
    also have "\<dots> \<longleftrightarrow> bit (data ! (i div 8)) (7 - j mod 8) \<or> 7 - j mod 8 = 7 - i mod 8"
      by (rule bit_or_mask) simp
    finally show ?thesis using same pos True by (auto simp: payload_bit_def)
  next
    case other: False
    then have "j \<noteq> i" by auto
    with other True len show ?thesis by (simp add: store_bit_def payload_bit_def)
  qed
qed

lemma payload_bit_store_bits:
  assumes "length data = 5" "i + length ls \<le> 40" "j < 40"
  shows "payload_bit (store_bits i ls data) j
         \<longleftrightarrow> payload_bit data j
           \<or> (i \<le> j \<and> j < i + length ls \<and> DHT22_BIT_THRESHOLD < ls ! (j - i))"
  using assms
proof (induction ls arbitrary: i data)
  case Nil
  then show ?case by auto
next
  case (Cons l ls)
  have "payload_bit (store_bits (Suc i) ls (store_bit i l data)) j
        \<longleftrightarrow> payload_bit (store_bit i l data) j
          \<or> (Suc i \<le> j \<and> j < Suc i + length ls \<and> DHT22_BIT_THRESHOLD < ls ! (j - Suc i))"
    using Cons.prems by (intro Cons.IH) simp_all
  moreover have "payload_bit (store_bit i l data) j
        \<longleftrightarrow> payload_bit data j \<or> (j = i \<and> DHT22_BIT_THRESHOLD < l)"
    using Cons.prems by (intro payload_bit_store_bit) simp_all
  ultimately have step: "payload_bit (store_bits i (l # ls) data) j
        \<longleftrightarrow> payload_bit data j \<or> (j = i \<and> DHT22_BIT_THRESHOLD < l)
          \<or> (Suc i \<le> j \<and> j < Suc i + length ls \<and> DHT22_BIT_THRESHOLD < ls ! (j - Suc i))"
    by simp
  consider "j < i" | "j = i" | "Suc i \<le> j" by linarith
  then show ?case
  proof cases
    case 1
    then show ?thesis using step by simp
  next
    case 2
    then show ?thesis using step by simp
  next
    case 3
    then have "(l # ls) ! (j - i) = ls ! (j - Suc i)"
      by (simp add: Suc_diff_le)
    with 3 show ?thesis using step by auto
  qed
qed

lemma payload_bit_zero: "j < 40 \<Longrightarrow> \<not> payload_bit [0, 0, 0, 0, 0] j"
proof -
  assume "j < 40"
  then have "j div 8 < 5" by simp
  then have "[0, 0, 0, 0, 0 :: u8] ! (j div 8) = 0"
    by (auto simp: nth_Cons' )
  then show ?thesis by (simp add: payload_bit_def)
qed

lemma skewed_capture_drives: "drives 15 skewed_capture (pulses skewed_pulses)"
proof -
  have "drives 15 (snd (dht22_send_start_signal 15 (bench 5000 skewed_pulses)))
          ((False, 1) # (True, 1) # (False, 1) # pulses skewed_pulses)"
    using bench_drives[of 15 5000 skewed_pulses] by (simp add: answer_def)
  from handshake_sim(2)[OF this] show ?thesis
    by (simp add: start_board_bench advance_def skewed_capture_def)
qed

lemma skewed_capture_run:
  "dht22_read_data 15 [0, 0, 0, 0, 0] skewed_capture = Some (DHT22_OK, [0x40, 0, 0, 0, 0], skewed_end)"
  using capture_sim[OF skewed_capture_drives, of 0 "[0, 0, 0, 0, 0]"]
  by (simp add: pulses_ok skewed_frame dht22_read_data_def)
     (simp add: advance_def skewed_capture_def skewed_end_def)

lemma skewed_capture_lengths: "pulse_lengths 15 40 skewed_capture = map of_nat skewed_pulses"
  using pulse_lengths_sim[OF skewed_capture_drives] by (simp add: pulses_ok)

lemma convert_humid:
  "dht22_convert_data [0x05, 0xDC, 0, 0, 0xE1] = (DHT22_ERROR_INVALID_DATA, 0, 150)"
  by code_simp

lemma convert_hot:
  "dht22_convert_data [0, 0, 0x03, 0x84, 0x87] = (DHT22_ERROR_INVALID_DATA, 90, 0)"
  by code_simp

lemma verify_humid: "dht22_verify_checksum [0x05, 0xDC, 0, 0, 0xE1] = DHT22_OK"
  by (simp add: dht22_verify_checksum_def)

lemma verify_hot: "dht22_verify_checksum [0, 0, 0x03, 0x84, 0x87] = DHT22_OK"
  by (simp add: dht22_verify_checksum_def)

section \<open>Rounding\<close>

lemma pow2_powi: "pow2 e = 2 powi e"
  by (simp add: pow2_def power_int_def inverse_eq_divide power_one_over)

lemma ilog2_bounds:
  assumes "0 < x"
  shows "2 powi (ilog2 x) \<le> x" and "x < 2 powi (ilog2 x + 1)"
proof -
  have "2 powi (ilog2 x) \<le> x \<and> x < 2 powi (ilog2 x + 1)"
  proof (cases "1 \<le> x")
    case True
    define n where "n = \<lfloor>x\<rfloor>"
    define b where "b = bitlen n"
    have n: "1 \<le> n" using True by (simp add: n_def le_floor_iff)
    then have bb: "2 ^ nat (b - 1) \<le> n" "n < 2 ^ nat b"
      using bitlen_bounds[of n] by (simp_all add: b_def)
    have b1: "1 \<le> b"
    proof (rule ccontr)
      assume "\<not> 1 \<le> b"
      then have "nat b = 0" by simp
      with bb(2) n show False by simp
    qed
    have il: "ilog2 x = b - 1" using True by (simp add: ilog2_def b_def n_def)
    have "(2::rat) powi (b - 1) = of_int (2 ^ nat (b - 1))"
      using b1 by (simp add: power_int_nonneg_exp)
    also have "\<dots> \<le> of_int n" using bb(1) by (simp only: of_int_le_iff)
    also have "\<dots> \<le> x" using floor_correct[of x] by (simp add: n_def)
    finally have lo: "2 powi (b - 1) \<le> x" .
    have "n + 1 \<le> 2 ^ nat b" using bb(2) by simp
    then have up: "(of_int (n + 1) :: rat) \<le> of_int (2 ^ nat b)" by (simp only: of_int_le_iff)
    have "x < of_int (n + 1)" using floor_correct[of x] by (simp add: n_def)
    also have "(of_int (n + 1) :: rat) \<le> of_int (2 ^ nat b)" by (rule up)
    also have "\<dots> = (2::rat) powi b" using b1 by (simp add: power_int_nonneg_exp)
    finally have "x < 2 powi b" .
    with lo il show ?thesis by simp
  next
    case False
    define c where "c = \<lceil>1 / x\<rceil>"
    define k where "k = bitlen (c - 1)"
    have y: "1 < 1 / x" using False assms by simp
    then have c: "2 \<le> c" by (simp add: c_def le_ceiling_iff)
    then have kb: "2 ^ nat (k - 1) \<le> c - 1" "c - 1 < 2 ^ nat k"
      using bitlen_bounds[of "c - 1"] by (simp_all add: k_def)
    have k1: "1 \<le> k"
    proof (rule ccontr)
      assume "\<not> 1 \<le> k"
      then have "nat k = 0" by simp
      with kb(2) c show False by simp
    qed
    have il: "ilog2 x = - k" using False by (simp add: ilog2_def k_def c_def)
    have "c \<le> 2 ^ nat k" using kb(2) by simp
    then have up: "(of_int c :: rat) \<le> of_int (2 ^ nat k)" by (simp only: of_int_le_iff)
    have "1 / x \<le> of_int c" using ceiling_correct[of "1 / x"] by (simp add: c_def)
    also have "(of_int c :: rat) \<le> of_int (2 ^ nat k)" by (rule up)
    also have "\<dots> = (2::rat) ^ nat k" by simp
    finally have "1 / x \<le> 2 ^ nat k" .
    then have "1 / 2 ^ nat k \<le> x"
      using assms by (simp add: field_simps)
    moreover have "(2::rat) powi (- k) = 1 / 2 ^ nat k"
      using k1 by (simp add: power_int_minus_divide power_int_nonneg_exp)
    ultimately have lo: "2 powi (- k) \<le> x" by simp
    have "of_int (2 ^ nat (k - 1)) \<le> (of_int (c - 1) :: rat)"
      using kb(1) by (simp only: of_int_le_iff)
    also have "\<dots> < 1 / x" using ceiling_correct[of "1 / x"] by (simp add: c_def)
    finally have "(2::rat) ^ nat (k - 1) < 1 / x" by simp
    then have "x < 1 / 2 ^ nat (k - 1)"
      using assms by (simp add: field_simps)
    moreover have "(2::rat) powi (- k + 1) = 1 / 2 ^ nat (k - 1)"
    proof -
      have "(2::rat) powi (- k + 1) = 2 powi (- (k - 1))" by simp
      also have "\<dots> = 1 / 2 powi (k - 1)" by (rule power_int_minus_divide)
      also have "\<dots> = 1 / 2 ^ nat (k - 1)" using k1 by (simp add: power_int_nonneg_exp)
      finally show ?thesis .
    qed
    ultimately have "x < 2 powi (- k + 1)" by simp
    with lo il show ?thesis by simp
  qed
  then show "2 powi (ilog2 x) \<le> x" and "x < 2 powi (ilog2 x + 1)" by simp_all
qed

lemma ilog2_unique:
  assumes "2 powi e \<le> x" "x < 2 powi (e + 1)"
  shows "ilog2 x = e"
proof -
  have pos: "0 < x" using assms(1) zero_less_power_int[of "2::rat" e] by linarith
  note b = ilog2_bounds[OF pos]
  have "\<not> e + 1 \<le> ilog2 x"
  proof
    assume "e + 1 \<le> ilog2 x"
    then have "(2::rat) powi (e + 1) \<le> 2 powi (ilog2 x)"
      by (intro power_int_increasing) simp_all
    with b(1) assms(2) show False by linarith
  qed
  moreover have "\<not> ilog2 x + 1 \<le> e"
  proof
    assume "ilog2 x + 1 \<le> e"
    then have "(2::rat) powi (ilog2 x + 1) \<le> 2 powi e"
      by (intro power_int_increasing) simp_all
    with b(2) assms(1) show False by linarith
  qed
  ultimately show ?thesis by linarith
qed

lemma round_half_even_of_int [simp]: "round_half_even (of_int k) = k"
  by (simp add: round_half_even_def)

lemma round_half_even_err: "\<bar>of_int (round_half_even x) - x\<bar> \<le> 1 / 2"
proof -
  define d where "d = x - of_int \<lfloor>x\<rfloor>"
  have d: "0 \<le> d" "d < 1" using floor_correct[of x] by (simp_all add: d_def)
  have x: "x = of_int \<lfloor>x\<rfloor> + d" by (simp add: d_def)
  consider "d < 1 / 2" | "1 / 2 < d" | "d = 1 / 2" by linarith
  then show ?thesis
  proof cases
    case 1
    then have "round_half_even x = \<lfloor>x\<rfloor>" by (simp add: round_half_even_def d_def)
    then have "of_int (round_half_even x) - x = - d" by (simp add: d_def)
    then show ?thesis using 1 d by (simp add: abs_if)
  next
    case 2
    then have "round_half_even x = \<lfloor>x\<rfloor> + 1" by (simp add: round_half_even_def d_def)
    then have "of_int (round_half_even x) - x = 1 - d" by (simp add: d_def)
    then show ?thesis using 2 d by (simp add: abs_if)
  next
    case 3
    then have "round_half_even x = \<lfloor>x\<rfloor> \<or> round_half_even x = \<lfloor>x\<rfloor> + 1"
      by (simp add: round_half_even_def d_def)
    then have "of_int (round_half_even x) - x = - d \<or> of_int (round_half_even x) - x = 1 - d"
      by (auto simp: d_def)
    then show ?thesis using 3 by (auto simp: abs_if)
  qed
qed

lemma round_half_even_neg: "round_half_even (- x) = - round_half_even x"
proof (cases "x = of_int \<lfloor>x\<rfloor>")
  case True
  then obtain k where k: "x = of_int k" ..
  have "round_half_even (- of_int k) = round_half_even (of_int (- k))" by simp
  then show ?thesis unfolding k by (simp only: round_half_even_of_int)
next
  case False
  then have c: "\<lceil>x\<rceil> = \<lfloor>x\<rfloor> + 1" by (simp add: ceiling_altdef)
  have f: "\<lfloor>- x\<rfloor> = - \<lfloor>x\<rfloor> - 1" by (simp add: floor_minus c)
  have lt: "of_int \<lfloor>x\<rfloor> < x" using False floor_correct[of x] by linarith
  show ?thesis
    unfolding round_half_even_def f using lt floor_correct[of x]
    by (auto simp: algebra_simps)
qed

lemma fp_round_neg: "fp_round p (- x) = - fp_round p x"
  by (simp add: fp_round_def round_half_even_neg)

lemma fp_round_err: "\<bar>fp_round p x - x\<bar> \<le> \<bar>x\<bar> / 2 ^ p"
proof (cases "x = 0")
  case True
  then show ?thesis by (simp add: fp_round_def)
next
  case False
  define L where "L = ilog2 \<bar>x\<bar>"
  define u where "u = (2::rat) powi (L - int p + 1)"
  define r where "r = round_half_even (x / u)"
  have u: "0 < u" by (simp add: u_def)
  have fp: "fp_round p x = of_int r * u"
    using False by (simp add: fp_round_def r_def u_def L_def pow2_powi)
  have "\<bar>of_int r - x / u\<bar> \<le> 1 / 2" unfolding r_def by (rule round_half_even_err)
  then have "\<bar>of_int r - x / u\<bar> * u \<le> 1 / 2 * u"
    using u by (intro mult_right_mono) simp_all
  moreover have "\<bar>of_int r - x / u\<bar> * u = \<bar>of_int r * u - x\<bar>"
  proof -
    have "\<bar>of_int r - x / u\<bar> * u = \<bar>(of_int r - x / u) * u\<bar>"
      using u by (simp add: abs_mult)
    also have "(of_int r - x / u) * u = of_int r * u - x"
      using u by (simp add: algebra_simps)
    finally show ?thesis .
  qed
  ultimately have e: "\<bar>fp_round p x - x\<bar> \<le> u / 2" by (simp add: fp)
  have "(2::rat) powi (L + (1 - int p)) = 2 powi L * 2 powi (1 - int p)"
    by (rule power_int_add) simp
  moreover have "L + (1 - int p) = L - int p + 1" by simp
  ultimately have "u = 2 powi L * 2 powi (1 - int p)"
    unfolding u_def by simp
  moreover have "(2::rat) powi (1 - int p) = 2 powi 1 / 2 powi (int p)"
    by (rule power_int_diff) simp
  ultimately have "u / 2 = 2 powi L / 2 ^ p" by simp
  moreover have "2 powi L \<le> \<bar>x\<bar>"
    unfolding L_def using False by (intro ilog2_bounds(1)) simp
  ultimately have "u / 2 \<le> \<bar>x\<bar> / 2 ^ p"
    by (simp add: divide_right_mono)
  with e show ?thesis by linarith
qed

lemma fp_round_exact:
  assumes "\<bar>m\<bar> < 2 ^ p"
  shows "fp_round p (of_int m * 2 powi e) = of_int m * 2 powi e"
proof (cases "m = 0")
  case True
  then show ?thesis by (simp add: fp_round_def)
next
  case False
  define a where "a = \<bar>m\<bar>"
  define b where "b = bitlen a"
  define x :: rat where "x = of_int m * 2 powi e"
  have a: "0 < a" using False by (simp add: a_def)
  then have bb: "2 ^ nat (b - 1) \<le> a" "a < 2 ^ nat b"
    using bitlen_bounds[of a] by (simp_all add: b_def)
  have b1: "1 \<le> b"
  proof (rule ccontr)
    assume "\<not> 1 \<le> b"
    then have "nat b = 0" by simp
    with bb(2) a show False by simp
  qed
  have "(2::int) ^ nat (b - 1) < 2 ^ p" using bb(1) assms unfolding a_def by linarith
  then have "nat (b - 1) < p" by (rule power_less_imp_less_exp[rotated]) simp
  then have bp: "b \<le> int p" by linarith
  define s where "s = nat (int p - b)"
  have s: "int s = int p - b" using bp by (simp add: s_def)
  have ax: "\<bar>x\<bar> = of_int a * 2 powi e"
    by (simp add: x_def a_def abs_mult)
  have x0: "x \<noteq> 0" using False by (simp add: x_def)
  have il: "ilog2 \<bar>x\<bar> = b - 1 + e"
  proof (rule ilog2_unique)
    have "(2::rat) powi (b - 1 + e) = 2 powi (b - 1) * 2 powi e"
      by (rule power_int_add) simp
    also have "(2::rat) powi (b - 1) = of_int (2 ^ nat (b - 1))"
      using b1 by (simp add: power_int_nonneg_exp)
    also have "of_int (2 ^ nat (b - 1)) * (2::rat) powi e \<le> of_int a * 2 powi e"
      using bb(1) by (intro mult_right_mono) (simp_all only: of_int_le_iff, simp)
    finally show "2 powi (b - 1 + e) \<le> \<bar>x\<bar>" by (simp add: ax)
    have "of_int a * (2::rat) powi e < of_int (2 ^ nat b) * 2 powi e"
      using bb(2) by (intro mult_strict_right_mono) (simp_all only: of_int_less_iff, simp)
    also have "(of_int (2 ^ nat b) :: rat) = 2 powi b"
      using b1 by (simp add: power_int_nonneg_exp)
    also have "(2::rat) powi b * 2 powi e = 2 powi (b + e)"
      by (rule power_int_add[symmetric]) simp
    finally show "\<bar>x\<bar> < 2 powi (b - 1 + e + 1)" by (simp add: ax)
  qed
  define u where "u = (2::rat) powi (ilog2 \<bar>x\<bar> - int p + 1)"
  have "ilog2 \<bar>x\<bar> - int p + 1 = e - int s" by (simp add: il s)
  then have u: "u = 2 powi (e - int s)" by (simp only: u_def)
  have "(2::rat) powi e = 2 powi (e - int s) * 2 powi (int s)"
  proof -
    have "(2::rat) powi (e - int s + int s) = 2 powi (e - int s) * 2 powi (int s)"
      by (rule power_int_add) simp
    then show ?thesis by simp
  qed
  then have e: "(2::rat) powi e = u * 2 ^ s" by (simp add: u)
  have upos: "0 < u" by (simp add: u_def)
  have "x / u = of_int m * 2 ^ s" using upos by (simp add: x_def e)
  also have "\<dots> = of_int (m * 2 ^ s)" by simp
  finally have q: "x / u = of_int (m * 2 ^ s)" .
  have "fp_round p x = of_int (round_half_even (x / u)) * u"
    using x0 by (simp add: fp_round_def u_def pow2_powi)
  also have "\<dots> = of_int (m * 2 ^ s) * u"
    unfolding q by (simp only: round_half_even_of_int)
  also have "\<dots> = x" by (simp add: x_def e)
  finally show ?thesis by (simp add: x_def)
qed

lemma fp_round_of_int:
  assumes "\<bar>m\<bar> < 2 ^ p"
  shows "fp_round p (of_int m) = of_int m"
  using fp_round_exact[OF assms, of 0] by simp

lemma fp_round_repr:
  assumes "0 < p"
  shows "\<exists>m e. fp_round p x = of_int m * 2 powi e \<and> \<bar>m\<bar> < 2 ^ p"
proof (cases "x = 0")
  case True
  have "fp_round p x = of_int 0 * 2 powi 0 \<and> \<bar>0::int\<bar> < 2 ^ p"
    using True by (simp add: fp_round_def)
  then show ?thesis by blast
next
  case False
  define L where "L = ilog2 \<bar>x\<bar>"
  define u where "u = (2::rat) powi (L - int p + 1)"
  define r where "r = round_half_even (x / u)"
  have upos: "0 < u" by (simp add: u_def)
  have fp: "fp_round p x = of_int r * u"
    using False by (simp add: fp_round_def r_def u_def L_def pow2_powi)
  have "\<bar>x\<bar> < 2 powi (L + 1)"
    unfolding L_def using False by (intro ilog2_bounds(2)) simp
  moreover have "(2::rat) powi (L + 1) = u * 2 ^ p"
  proof -
    have "(2::rat) powi (L - int p + 1 + int p) = 2 powi (L - int p + 1) * 2 powi (int p)"
      by (rule power_int_add) simp
    then show ?thesis by (simp add: u_def)
  qed
  ultimately have "\<bar>x\<bar> < u * 2 ^ p" by simp
  then have "\<bar>x\<bar> / u < 2 ^ p" using upos by (simp add: field_simps)
  then have xu: "\<bar>x / u\<bar> < 2 ^ p" using upos by (simp add: abs_divide)
  have "\<bar>of_int r - x / u\<bar> \<le> 1 / 2" unfolding r_def by (rule round_half_even_err)
  with xu have "\<bar>(of_int r :: rat)\<bar> < 2 ^ p + 1" by linarith
  then have "(of_int \<bar>r\<bar> :: rat) < of_int (2 ^ p + 1)" by simp
  then have "\<bar>r\<bar> < 2 ^ p + 1" by (simp only: of_int_less_iff)
  then have "\<bar>r\<bar> < 2 ^ p \<or> \<bar>r\<bar> = 2 ^ p" by linarith
  then show ?thesis
  proof
    assume "\<bar>r\<bar> < 2 ^ p"
    with fp show ?thesis unfolding u_def by blast
  next
    assume eq: "\<bar>r\<bar> = 2 ^ p"
    define g :: int where "g = (if 0 \<le> r then 1 else - 1)"
    have r: "r = g * 2 ^ p" using eq by (auto simp: g_def abs_if)
    have "(2::rat) ^ p * u = 2 powi (int p + (L - int p + 1))"
    proof -
      have "(2::rat) powi (int p + (L - int p + 1)) = 2 powi (int p) * 2 powi (L - int p + 1)"
        by (rule power_int_add) simp
      then show ?thesis by (simp add: u_def)
    qed
    then have "fp_round p x = of_int g * 2 powi (int p + (L - int p + 1))"
      by (simp add: fp r mult.assoc)
    moreover have "\<bar>g\<bar> < 2 ^ p" using assms by (simp add: g_def)
    ultimately show ?thesis by blast
  qed
qed

lemma fp_round_idem:
  assumes "0 < p"
  shows "fp_round p (fp_round p x) = fp_round p x"
proof -
  obtain m e where "fp_round p x = of_int m * 2 powi e" "\<bar>m\<bar> < 2 ^ p"
    using fp_round_repr[OF assms] by blast
  then show ?thesis by (simp add: fp_round_exact)
qed

section \<open>Decoding a frame\<close>

lemma shift_or_byte:
  fixes b :: u8
  shows "push_bit 8 x OR uint b = 256 * x + uint b"
proof -
  have tb: "take_bit 8 (uint b) = uint b"
    using uint_ge_0[of b] uint_lt2p[of b] by (simp add: take_bit_eq_mod)
  have "push_bit 8 x OR uint b = concat_bit 8 (uint b) x"
    unfolding concat_bit_def tb by (rule or.commute)
  also have "\<dots> = take_bit 8 (uint b) + push_bit 8 x"
    by (rule concat_bit_eq)
  also have "\<dots> = 256 * x + uint b"
    unfolding tb by (simp add: push_bit_eq_mult)
  finally show ?thesis .
qed

lemma and_7F:
  fixes a :: u8
  shows "uint a AND 0x7F = uint a mod 128"
proof -
  have "(0x7F :: int) = mask 7" by (simp add: mask_eq_exp_minus_1)
  then have "uint a AND 0x7F = take_bit 7 (uint a)" by (simp only: take_bit_eq_mask)
  then show ?thesis by (simp add: take_bit_eq_mod)
qed

lemma and_80:
  fixes a :: u8
  shows "uint a AND 0x80 \<noteq> 0 \<longleftrightarrow> bit a 7"
proof -
  have "uint a AND 2 ^ 7 = 0 \<longleftrightarrow> \<not> bit (uint a) 7"
    by (rule and_exp_eq_0_iff_not_bit)
  then show ?thesis by (simp add: bit_uint_iff)
qed

lemma dbl_0_1: "DBL_0_1 = 3602879701896397 / 36028797018963968"
  by code_simp

lemma float_of_int_minus_1: "float_of_int (- 1) = - 1"
  using fp_round_of_int[of "- 1" 24] by (simp add: float_of_int_def to_float_def)

lemma float_negate: "float_mul (to_float y) (float_of_int (- 1)) = - to_float y"
  by (simp add: float_mul_def float_of_int_minus_1)
     (simp add: to_float_def fp_round_neg fp_round_idem)

lemma double_of_byte_pair:
  assumes "0 \<le> n" "n < 65536"
  shows "double_of_int n = of_int n"
proof -
  have "\<bar>n\<bar> < 2 ^ 53" using assms by simp
  then show ?thesis unfolding double_of_int_def to_double_def by (rule fp_round_of_int)
qed

lemma rounding_chain:
  fixes t a b h eps del :: rat
  assumes "0 \<le> t" "0 \<le> eps" "0 \<le> del"
    and "\<bar>a - t\<bar> \<le> t * eps" "\<bar>b - a\<bar> \<le> \<bar>a\<bar> * eps" "\<bar>h - b\<bar> \<le> \<bar>b\<bar> * del"
  shows "\<bar>h - t\<bar> \<le> t * (eps + eps * (1 + eps) + del * ((1 + eps) * (1 + eps)))"
proof -
  have a: "\<bar>a\<bar> \<le> t * (1 + eps)"
    using assms(1,4) by (simp add: algebra_simps)
  have "\<bar>a\<bar> * eps \<le> t * (1 + eps) * eps"
    using a assms(2) by (rule mult_right_mono)
  with assms(5) have ba: "\<bar>b - a\<bar> \<le> t * (1 + eps) * eps" by linarith
  have "\<bar>b\<bar> \<le> \<bar>a\<bar> + \<bar>b - a\<bar>" by linarith
  with a ba have "\<bar>b\<bar> \<le> t * (1 + eps) + t * (1 + eps) * eps" by linarith
  then have b: "\<bar>b\<bar> \<le> t * ((1 + eps) * (1 + eps))" by (simp add: algebra_simps)
  have "\<bar>b\<bar> * del \<le> t * ((1 + eps) * (1 + eps)) * del"
    using b assms(3) by (rule mult_right_mono)
  with assms(6) have hb: "\<bar>h - b\<bar> \<le> t * ((1 + eps) * (1 + eps)) * del" by linarith
  have "\<bar>h - t\<bar> \<le> \<bar>h - b\<bar> + \<bar>b - a\<bar> + \<bar>a - t\<bar>" by linarith
  with hb ba assms(4)
  have "\<bar>h - t\<bar> \<le> t * ((1 + eps) * (1 + eps)) * del + t * (1 + eps) * eps + t * eps"
    by linarith
  then show ?thesis by (simp add: algebra_simps)
qed

lemma tenths_error:
  assumes "0 \<le> n"
  shows "\<bar>to_float (double_mul (of_int n) DBL_0_1) - of_int n / 10\<bar> \<le> of_int n / 10 / 2 ^ 23"
proof -
  define t :: rat where "t = of_int n / 10"
  define eps :: rat where "eps = 1 / 2 ^ 53"
  define del :: rat where "del = 1 / 2 ^ 24"
  define a where "a = of_int n * DBL_0_1"
  define b where "b = to_double a"
  define h where "h = to_float b"
  have t: "0 \<le> t" using assms by (simp add: t_def)
  have "\<bar>DBL_0_1 - 1 / 10\<bar> \<le> \<bar>1 / 10\<bar> / 2 ^ 53"
    unfolding DBL_0_1_def to_double_def by (rule fp_round_err)
  then have c: "\<bar>DBL_0_1 - 1 / 10\<bar> \<le> 1 / 10 * eps" by (simp add: eps_def)
  have "a - t = of_int n * (DBL_0_1 - 1 / 10)" by (simp add: a_def t_def algebra_simps)
  then have "\<bar>a - t\<bar> = of_int n * \<bar>DBL_0_1 - 1 / 10\<bar>"
    using assms by (simp add: abs_mult)
  also have "\<dots> \<le> of_int n * (1 / 10 * eps)"
    using c assms by (intro mult_left_mono) simp_all
  finally have 1: "\<bar>a - t\<bar> \<le> t * eps" by (simp add: t_def)
  have 2: "\<bar>b - a\<bar> \<le> \<bar>a\<bar> * eps"
    using fp_round_err[of 53 a] by (simp add: b_def to_double_def eps_def)
  have 3: "\<bar>h - b\<bar> \<le> \<bar>b\<bar> * del"
    using fp_round_err[of 24 b] by (simp add: h_def to_float_def del_def)
  have "\<bar>h - t\<bar> \<le> t * (eps + eps * (1 + eps) + del * ((1 + eps) * (1 + eps)))"
    by (rule rounding_chain[OF t _ _ 1 2 3]) (simp_all add: eps_def del_def)
  moreover have "eps + eps * (1 + eps) + del * ((1 + eps) * (1 + eps)) \<le> 1 / 2 ^ 23"
    by (simp add: eps_def del_def)
  then have "t * (eps + eps * (1 + eps) + del * ((1 + eps) * (1 + eps))) \<le> t * (1 / 2 ^ 23)"
    using t by (rule mult_left_mono)
  ultimately have "\<bar>h - t\<bar> \<le> t / 2 ^ 23" by simp
  then show ?thesis by (simp add: h_def b_def a_def t_def double_mul_def)
qed

lemma times_0_1_examples: "times_0_1 500 = 50" "times_0_1 200 = 20"
  by code_simp+

lemma humidity_decoded:
  "snd (snd (dht22_convert_data data)) = times_0_1 (256 * uint (data ! 0) + uint (data ! 1))"
  by (simp add: dht22_convert_data_def Let_def times_0_1_def shift_or_byte)

lemma temperature_decoded:
  "fst (snd (dht22_convert_data data))
   = (if bit (data ! 2) 7
      then - times_0_1 (256 * (uint (data ! 2) mod 128) + uint (data ! 3))
      else times_0_1 (256 * (uint (data ! 2) mod 128) + uint (data ! 3)))"
proof -
  have neg: "float_mul (times_0_1 n) (float_of_int (- 1)) = - times_0_1 n" for n
    unfolding times_0_1_def by (rule float_negate)
  show ?thesis
    using and_80[of "data ! 2"]
    by (simp add: dht22_convert_data_def Let_def shift_or_byte and_7F
        times_0_1_def[symmetric] neg del: and_80)
qed

lemma times_0_1_error:
  assumes "0 \<le> n" "n < 65536"
  shows "\<bar>times_0_1 n - of_int n / 10\<bar> \<le> of_int n / 10 / 2 ^ 23"
  using tenths_error[OF assms(1)] double_of_byte_pair[OF assms]
  by (simp add: times_0_1_def)

lemma raw_ranges:
  "0 \<le> 256 * uint (a :: u8) + uint (b :: u8)" "256 * uint (a :: u8) + uint (b :: u8) < 65536"
  "0 \<le> 256 * (uint (a :: u8) mod 128) + uint (b :: u8)"
  "256 * (uint (a :: u8) mod 128) + uint (b :: u8) < 65536"
  using uint_ge_0[of a] uint_lt2p[of a] uint_ge_0[of b] uint_lt2p[of b]
    pos_mod_bound[of 128 "uint a"] pos_mod_sign[of 128 "uint a"]
  by simp_all

section \<open>Timeouts\<close>

lemma wait_loop_timeout:
  assumes "wait_loop gpio state timeout_us start w = Some y"
  shows "fst y \<noteq> 0 \<longrightarrow> timeout_us < time_us_32 (snd y) - start"
proof (rule wait_loop.raw_induct[where P = "\<lambda>gpio state timeout_us start w y.
         fst y \<noteq> 0 \<longrightarrow> timeout_us < time_us_32 (snd y) - start", OF _ assms])
  fix wl gpio state timeout_us start w y
  assume ih: "\<And>g st t0 s0 w0 y0. wl g st t0 s0 w0 = Some y0 \<Longrightarrow>
               fst y0 \<noteq> 0 \<longrightarrow> t0 < time_us_32 (snd y0) - s0"
    and body: "(if fst (gpio_get gpio w) \<noteq> state
      then if timeout_us < time_us_32 (snd (gpio_get gpio w)) - start
           then Some (- 1, snd (gpio_get gpio w))
           else wl gpio state timeout_us start (snd (gpio_get gpio w))
      else Some (0, snd (gpio_get gpio w))) = Some y"
  show "fst y \<noteq> 0 \<longrightarrow> timeout_us < time_us_32 (snd y) - start"
  proof (cases "fst (gpio_get gpio w) \<noteq> state")
    case False
    with body show ?thesis by auto
  next
    case True
    show ?thesis
    proof (cases "timeout_us < time_us_32 (snd (gpio_get gpio w)) - start")
      case over: True
      with True body show ?thesis by auto
    next
      case under: False
      with True body have "wl gpio state timeout_us start (snd (gpio_get gpio w)) = Some y"
        by simp
      then show ?thesis by (rule ih)
    qed
  qed
qed

lemma wait_for_pin_state_timeout_exceeded:
  assumes "wait_for_pin_state gpio state timeout_us w = Some (r, w')" "r \<noteq> 0"
  shows "timeout_us < time_us_32 w' - time_us_32 w"
  using wait_loop_timeout[of gpio state timeout_us "time_us_32 w" w "(r, w')"] assms
  by (simp add: wait_for_pin_state_def)

lemma dht22_read_returns:
  "\<exists>rc out s' w'. dht22_read s w = Some (rc, out, s', w')
     \<and> initialized s' = initialized s \<and> pin s' = pin s"
proof (cases "initialized s")
  case False
  then show ?thesis by (simp add: dht22_read_def)
next
  case True
  obtain frc d k where f: "read_frame s w
       = Some (frc, d, advance k (snd (dht22_send_start_signal (pin s) (rate_limit s w))))"
    using read_frame_total by blast
  show ?thesis
    by (simp add: dht22_read_unfold[OF True] f)
qed

lemma read_frame_stages:
  "read_frame s w =
     (case dht22_wait_for_response (pin s) (start_board s w) of
        None \<Rightarrow> None
      | Some (r4, w4) \<Rightarrow>
          if r4 \<noteq> DHT22_OK then Some (r4, [0, 0, 0, 0, 0], w4)
          else read_data_loop (pin s) 0 [0, 0, 0, 0, 0] w4)"
  by (simp add: read_frame_def start_board_def dht22_read_data_def split: option.splits)

lemma read_timeout:
  assumes "initialized s" "read_frame s w = Some (DHT22_ERROR_TIMEOUT, d, w1)"
  shows "dht22_read s w = Some (DHT22_ERROR_TIMEOUT, None, s, w1)"
  by (simp add: dht22_read_unfold[OF assms(1)] assms(2))

lemma loop_timeout:
  assumes "i < 40" "measure_pulse gpio wi = Some (Inl u, w1)"
  shows "read_data_loop gpio i d wi = Some (DHT22_ERROR_TIMEOUT, d, w1)"
  using assms by (subst read_data_loop.simps) simp

lemma capture_reaches_loop:
  assumes "capture_reaches gpio w0 i wi"
  shows "\<exists>d. read_data_loop gpio 0 data w0 = read_data_loop gpio i d wi"
  using assms
proof (induction rule: capture_reaches.induct)
  case at_start
  then show ?case by blast
next
  case (after_pulse i wi l w')
  then obtain d where d: "read_data_loop gpio 0 data w0 = read_data_loop gpio i d wi"
    by blast
  have "read_data_loop gpio i d wi = read_data_loop gpio (Suc i) (store_bit i l d) w'"
    using after_pulse.hyps(2,3) by (subst read_data_loop.simps) simp
  with d show ?case by metis
qed

lemma edge_timeout_frame:
  assumes "edge_wait s w level w0"
  shows "wait_for_pin_state (pin s) level DHT22_RESPONSE_WAIT_TIMEOUT w0 = Some (r, w1)
         \<Longrightarrow> r \<noteq> 0 \<Longrightarrow> \<exists>d. read_frame s w = Some (DHT22_ERROR_TIMEOUT, d, w1)"
  using assms
proof (induction arbitrary: r w1 rule: edge_wait.induct)
  case response_low
  then show ?case
    by (simp add: read_frame_stages dht22_wait_for_response_def)
next
  case (response_high wa)
  then show ?case
    by (simp add: read_frame_stages dht22_wait_for_response_def)
next
  case (response_low_again wa wb)
  then show ?case
    by (simp add: read_frame_stages dht22_wait_for_response_def)
next
  case (bit_rise w4 i wi)
  from bit_rise.prems have m: "measure_pulse (pin s) wi = Some (Inl (), w1)"
    by (simp add: measure_pulse_def)
  obtain d where "read_data_loop (pin s) 0 [0, 0, 0, 0, 0] w4 = read_data_loop (pin s) i d wi"
    using capture_reaches_loop[OF bit_rise.hyps(2)] by blast
  then have "read_data_loop (pin s) 0 [0, 0, 0, 0, 0] w4 = Some (DHT22_ERROR_TIMEOUT, d, w1)"
    using loop_timeout[OF bit_rise.hyps(3) m] by simp
  with bit_rise.hyps(1) show ?case
    by (simp add: read_frame_stages)
next
  case (bit_fall w4 i wi wa)
  from bit_fall.prems bit_fall.hyps(4) have m: "measure_pulse (pin s) wi = Some (Inl (), w1)"
    by (simp add: measure_pulse_def)
  obtain d where "read_data_loop (pin s) 0 [0, 0, 0, 0, 0] w4 = read_data_loop (pin s) i d wi"
    using capture_reaches_loop[OF bit_fall.hyps(2)] by blast
  then have "read_data_loop (pin s) 0 [0, 0, 0, 0, 0] w4 = Some (DHT22_ERROR_TIMEOUT, d, w1)"
    using loop_timeout[OF bit_fall.hyps(3) m] by simp
  with bit_fall.hyps(1) show ?case
    by (simp add: read_frame_stages)
qed

lemma wait_for_pin_state_reports:
  assumes "wait_for_pin_state gpio state timeout_us w = Some (r, w')"
    and "unat timeout_us < 2 ^ 32 - 1"
  shows "r \<noteq> 0 \<longleftrightarrow> (\<forall>j\<le>unat timeout_us. line w gpio (clock_us w + j) \<noteq> state)"
proof
  assume nz: "r \<noteq> 0"
  show "\<forall>j\<le>unat timeout_us. line w gpio (clock_us w + j) \<noteq> state"
  proof (rule ccontr)
    assume "\<not> (\<forall>j\<le>unat timeout_us. line w gpio (clock_us w + j) \<noteq> state)"
    then obtain j where j: "j \<le> unat timeout_us" "line w gpio (clock_us w + j) = state"
      by blast
    define k where "k = (LEAST j. line w gpio (clock_us w + j) = state)"
    have hit: "line w gpio (clock_us w + k) = state"
      unfolding k_def using j(2) by (rule LeastI)
    have "k \<le> j"
      unfolding k_def using j(2) by (rule Least_le)
    then have le: "k \<le> unat timeout_us"
      using j(1) by simp
    have "\<forall>i<k. line w gpio (clock_us w + i) \<noteq> state"
      unfolding k_def using not_less_Least by blast
    from wait_for_pin_state_edge[OF this hit le] assms(1) nz show False
      by simp
  qed
next
  assume "\<forall>j\<le>unat timeout_us. line w gpio (clock_us w + j) \<noteq> state"
  from wait_for_pin_state_timeout[OF this assms(2)] assms(1) show "r \<noteq> 0"
    by simp
qed

lemma stalled_drives: "drives (pin ready) (start_board ready (stalled segs)) segs"
  by (simp add: drives_def start_board_def rate_limit_first start_signal_simps stalled_def
      waveform_def)

lemma absent_head:
  assumes "drives gpio w ((l, d) # segs)" "n < d"
  shows "\<forall>j\<le>n. line w gpio (clock_us w + j) \<noteq> (\<not> l)"
  using drives_head[OF assms(1)] assms(2) by auto

lemma absent_idle:
  assumes "drives gpio w []"
  shows "\<forall>j\<le>n. line w gpio (clock_us w + j) \<noteq> False"
  using assms by (simp add: drives_def)

lemma advance_advance: "advance j (advance k w) = advance (k + j) w"
  by (rule advance_simps(6))

lemma hx711_examples:
  "float_div (float_of_int (sint (1000 :: 32 word))) 5 = 200"
  "float_div (float_of_int (sint (400 :: 32 word))) 200 = 2"
  by code_simp+

section \<open>Properties of the climate decoder\<close>

text \<open>
  C7. A call of \<^verbatim>\<open>dht22_read\<close> while the driver is not initialized, as it is before
  the first \<^verbatim>\<open>dht22_init\<close>, returns \<^verbatim>\<open>DHT22_ERROR_NOT_INITIALIZED\<close>, writes
  neither output, and leaves the driver state and the board as they were: no pin is
  configured, driven or sampled and nothing sleeps.
\<close>

theorem read_before_init:
  assumes "\<not> initialized s"
  shows "dht22_read s w = Some (DHT22_ERROR_NOT_INITIALIZED, None, s, w)"
  using assms by (simp add: dht22_read_def)

theorem read_before_init_witness:
  "\<not> initialized dht22_state
   \<and> dht22_read dht22_state (bench 0 [])
       = Some (DHT22_ERROR_NOT_INITIALIZED, None, dht22_state, bench 0 [])"
  using read_before_init[of dht22_state "bench 0 []"] by (simp add: dht22_state_def)

text \<open>
  C6. A read of an initialized driver returns, and the board it returns is the board at
  the end of the transaction \<open>read_frame\<close>. When the 40-bit capture completed, the
  stored timestamp is the millisecond clock of that board, whether the return code is
  then \<^verbatim>\<open>DHT22_OK\<close>, \<^verbatim>\<open>DHT22_ERROR_CHECKSUM\<close> or \<^verbatim>\<open>DHT22_ERROR_INVALID_DATA\<close>. When
  the handshake or the capture timed out, the read returns \<^verbatim>\<open>DHT22_ERROR_TIMEOUT\<close> and
  the state, with its timestamp, is unchanged.
\<close>

theorem timestamp_follows_capture:
  assumes "initialized s"
  shows "\<exists>rc out s' w' frc d.
      dht22_read s w = Some (rc, out, s', w') \<and> read_frame s w = Some (frc, d, w')
    \<and> (frc = DHT22_OK \<longrightarrow>
          s' = s\<lparr>last_read_time_ms := ms_since_boot w'\<rparr>
        \<and> rc = (if dht22_verify_checksum d \<noteq> DHT22_OK then DHT22_ERROR_CHECKSUM
                 else fst (dht22_convert_data d))
        \<and> (rc = DHT22_OK \<or> rc = DHT22_ERROR_CHECKSUM \<or> rc = DHT22_ERROR_INVALID_DATA))
    \<and> (frc \<noteq> DHT22_OK \<longrightarrow> rc = DHT22_ERROR_TIMEOUT \<and> out = None \<and> s' = s)
    \<and> (rc = DHT22_ERROR_TIMEOUT \<longleftrightarrow> frc \<noteq> DHT22_OK)"
proof -
  obtain frc d k where f: "read_frame s w
       = Some (frc, d, advance k (snd (dht22_send_start_signal (pin s) (rate_limit s w))))"
     "frc = DHT22_OK \<or> frc = DHT22_ERROR_TIMEOUT"
    using read_frame_total by blast
  show ?thesis
    using f verify_checksum_cases[of d] convert_cases[of d]
    by (auto simp: dht22_read_unfold[OF assms])
qed

theorem timestamp_follows_capture_witness:
  "initialized ready
   \<and> read_frame ready (bench 5000 skewed_pulses) = Some (DHT22_OK, [0x40, 0, 0, 0, 0], skewed_end)
   \<and> (\<exists>out. dht22_read ready (bench 5000 skewed_pulses)
       = Some (DHT22_ERROR_CHECKSUM, out, ready\<lparr>last_read_time_ms := 23\<rparr>, skewed_end))
   \<and> read_frame ready (quiet_end 0)
       = Some (DHT22_ERROR_TIMEOUT, [0, 0, 0, 0, 0], advance 201 absent_start)
   \<and> dht22_read ready (quiet_end 0)
       = Some (DHT22_ERROR_TIMEOUT, None, ready, advance 201 absent_start)"
proof -
  have ms: "ms_since_boot skewed_end = 23"
    by (simp add: ms_since_boot_def skewed_end_def)
  have silent: "read_frame ready (quiet_end 0)
       = Some (DHT22_ERROR_TIMEOUT, [0, 0, 0, 0, 0], advance 201 absent_start)"
    using read_frame_absent[of ready "quiet_end 0"] quiet_end_idle[of 0]
    by (simp add: rate_limit_first absent_start_def)
  from timestamp_follows_capture[OF ready_simps(1), of "bench 5000 skewed_pulses"]
  have 1: "\<exists>out. dht22_read ready (bench 5000 skewed_pulses)
       = Some (DHT22_ERROR_CHECKSUM, out, ready\<lparr>last_read_time_ms := 23\<rparr>, skewed_end)"
    by (auto simp: skewed_run skewed_checksum ms)
  from timestamp_follows_capture[OF ready_simps(1), of "quiet_end 0"]
  have 2: "dht22_read ready (quiet_end 0)
       = Some (DHT22_ERROR_TIMEOUT, None, ready, advance 201 absent_start)"
    by (auto simp: silent)
  from 1 2 silent skewed_run show ?thesis by simp
qed

text \<open>
  C10. While the stored timestamp is 0, as \<^verbatim>\<open>dht22_init\<close> sets it, a read of an
  initialized driver skips the minimum-interval wait whatever the clock says: the start
  signal is issued on the board as the call found it, and the start signal is all that
  the read adds to the journal, so nothing sleeps for milliseconds.
\<close>

theorem first_read_not_delayed:
  assumes "initialized s" "last_read_time_ms s = 0"
  shows "rate_limit s w = w
    \<and> (\<exists>rc out s' k.
          dht22_read s w = Some (rc, out, s', advance k (snd (dht22_send_start_signal (pin s) w)))
        \<and> journal (advance k (snd (dht22_send_start_signal (pin s) w)))
            = start_events (pin s) @ journal w)"
proof -
  have r: "rate_limit s w = w" using assms(2) by (rule rate_limit_first)
  obtain frc d k where f: "read_frame s w
       = Some (frc, d, advance k (snd (dht22_send_start_signal (pin s) w)))"
    using read_frame_total[of s w] r by auto
  have "\<exists>rc out s'. dht22_read s w
         = Some (rc, out, s', advance k (snd (dht22_send_start_signal (pin s) w)))"
    by (simp add: dht22_read_unfold[OF assms(1)] f)
  then show ?thesis using r journal_advance_start by blast
qed

theorem first_read_not_delayed_witness:
  "initialized ready \<and> last_read_time_ms ready = 0
   \<and> rate_limit ready (bench 0 quiet_pulses) = bench 0 quiet_pulses
   \<and> dht22_read ready (bench 0 quiet_pulses)
       = Some (DHT22_OK, Some (0, 0), ready\<lparr>last_read_time_ms := 18\<rparr>, quiet_end 0)
   \<and> journal (quiet_end 0) = start_events 15 @ journal (bench 0 quiet_pulses)"
  using first_read_not_delayed[of ready "bench 0 quiet_pulses"] quiet_read[of 0]
  by (simp add: ms_since_boot_def quiet_end_def bench_def)

text \<open>
  The minimum interval away from the timestamp 0. A read of an initialized driver whose
  stored timestamp is not 0, made less than 2000 ms after that timestamp, first sleeps
  for exactly the remainder, 2000 ms minus the elapsed time, so that 2000 ms have elapsed
  since the timestamp when the start signal is issued; the sleep and the start signal
  are all that the read adds to the journal.
\<close>

theorem rate_limit_sleeps_remainder:
  assumes "initialized s" "last_read_time_ms s \<noteq> 0"
    and "ms_since_boot w - last_read_time_ms s < DHT22_MIN_INTERVAL_MS"
  shows "rate_limit s w
           = sleep_ms (DHT22_MIN_INTERVAL_MS - (ms_since_boot w - last_read_time_ms s)) w
    \<and> clock_us (rate_limit s w)
        = clock_us w + 1000 * unat (DHT22_MIN_INTERVAL_MS - (ms_since_boot w - last_read_time_ms s))
    \<and> ms_since_boot (rate_limit s w) - last_read_time_ms s = DHT22_MIN_INTERVAL_MS
    \<and> ms_since_boot (rate_limit s w) = last_read_time_ms s + DHT22_MIN_INTERVAL_MS
    \<and> (\<exists>rc out s' k.
          dht22_read s w
            = Some (rc, out, s', advance k (snd (dht22_send_start_signal (pin s) (rate_limit s w))))
        \<and> journal (advance k (snd (dht22_send_start_signal (pin s) (rate_limit s w))))
            = start_events (pin s)
              @ Sleep_Ms (DHT22_MIN_INTERVAL_MS - (ms_since_boot w - last_read_time_ms s))
              # journal w)"
proof -
  let ?d = "DHT22_MIN_INTERVAL_MS - (ms_since_boot w - last_read_time_ms s)"
  have r: "rate_limit s w = sleep_ms ?d w"
    using assms(2,3) by (simp add: rate_limit_def)
  have "(clock_us w + 1000 * unat ?d) div 1000 = clock_us w div 1000 + unat ?d"
    by simp
  then have "ms_since_boot (sleep_ms ?d w) = ms_since_boot w + ?d"
    by (simp add: ms_since_boot_def sleep_ms_def elapse_def log_call_def)
  then have m: "ms_since_boot (rate_limit s w) = last_read_time_ms s + DHT22_MIN_INTERVAL_MS"
    by (simp add: r)
  have j: "journal (rate_limit s w) = Sleep_Ms ?d # journal w"
    by (simp add: r sleep_ms_def elapse_def log_call_def)
  obtain frc d k where f: "read_frame s w
       = Some (frc, d, advance k (snd (dht22_send_start_signal (pin s) (rate_limit s w))))"
    using read_frame_total[of s w] by auto
  have "\<exists>rc out s'. dht22_read s w
         = Some (rc, out, s', advance k (snd (dht22_send_start_signal (pin s) (rate_limit s w))))"
    by (simp add: dht22_read_unfold[OF assms(1)] f)
  moreover have "clock_us (rate_limit s w) = clock_us w + 1000 * unat ?d"
    by (simp add: r sleep_ms_def elapse_def log_call_def)
  moreover have "ms_since_boot (rate_limit s w) - last_read_time_ms s = DHT22_MIN_INTERVAL_MS"
    by (simp add: m)
  ultimately show ?thesis using r m j journal_advance_start[of k "pin s" "rate_limit s w"] by auto
qed

theorem rate_limit_sleeps_remainder_witness:
  "initialized (ready\<lparr>last_read_time_ms := 18\<rparr>)
   \<and> last_read_time_ms (ready\<lparr>last_read_time_ms := 18\<rparr>) \<noteq> 0
   \<and> ms_since_boot (quiet_end 0) - last_read_time_ms (ready\<lparr>last_read_time_ms := 18\<rparr>)
       < DHT22_MIN_INTERVAL_MS
   \<and> rate_limit (ready\<lparr>last_read_time_ms := 18\<rparr>) (quiet_end 0) = sleep_ms 2000 (quiet_end 0)
   \<and> ms_since_boot (rate_limit (ready\<lparr>last_read_time_ms := 18\<rparr>) (quiet_end 0)) = 2018"
proof -
  let ?s = "ready\<lparr>last_read_time_ms := 18\<rparr>"
  have ms: "ms_since_boot (quiet_end 0) = 18"
    by (simp add: ms_since_boot_def quiet_end_def)
  have a: "initialized ?s" and b: "last_read_time_ms ?s \<noteq> 0"
    by simp_all
  have c: "ms_since_boot (quiet_end 0) - last_read_time_ms ?s < DHT22_MIN_INTERVAL_MS"
    by (simp add: ms DHT22_MIN_INTERVAL_MS_def)
  note t = rate_limit_sleeps_remainder[OF a b c]
  from t[THEN conjunct1] have "rate_limit ?s (quiet_end 0) = sleep_ms 2000 (quiet_end 0)"
    by (simp add: ms DHT22_MIN_INTERVAL_MS_def)
  moreover from t[THEN conjunct2, THEN conjunct2, THEN conjunct2, THEN conjunct1]
  have "ms_since_boot (rate_limit ?s (quiet_end 0)) = 2018"
    by (simp add: DHT22_MIN_INTERVAL_MS_def)
  ultimately show ?thesis using a b c by blast
qed

text \<open>
  C5. The code breaks the claim when the prior read recorded the timestamp 0, which the
  guard of line 135 takes for ``never read''. A first read that starts 4294967277887
  microseconds after boot and captures a valid frame ends exactly when the 32-bit
  millisecond clock wraps around, returns \<^verbatim>\<open>DHT22_OK\<close> and stores the timestamp 0. The
  read called next, 0 ms later, does not sleep: it issues its start signal on the board
  as it found it, and the journal holds the two start signals with no \<open>Sleep_Ms\<close>
  between them.
\<close>

theorem wrapped_timestamp_skips_wait:
  "dht22_read ready (bench wrap_start quiet_pulses)
     = Some (DHT22_OK, Some (0, 0), ready\<lparr>last_read_time_ms := 0\<rparr>, quiet_end wrap_start)
   \<and> ms_since_boot (quiet_end wrap_start) - last_read_time_ms (ready\<lparr>last_read_time_ms := 0\<rparr>)
       < DHT22_MIN_INTERVAL_MS
   \<and> rate_limit (ready\<lparr>last_read_time_ms := 0\<rparr>) (quiet_end wrap_start) = quiet_end wrap_start
   \<and> rate_limit (ready\<lparr>last_read_time_ms := 0\<rparr>) (quiet_end wrap_start)
       \<noteq> sleep_ms (DHT22_MIN_INTERVAL_MS
                    - (ms_since_boot (quiet_end wrap_start)
                       - last_read_time_ms (ready\<lparr>last_read_time_ms := 0\<rparr>)))
             (quiet_end wrap_start)
   \<and> dht22_read (ready\<lparr>last_read_time_ms := 0\<rparr>) (quiet_end wrap_start)
     = Some (DHT22_ERROR_TIMEOUT, None, ready\<lparr>last_read_time_ms := 0\<rparr>,
         \<lparr>clock_us = 4294967314231, line = waveform 4294967295917 (answer quiet_pulses),
          gpio_reads = 284, journal = start_events 15 @ start_events 15\<rparr>)"
proof -
  have ms: "ms_since_boot (quiet_end wrap_start) = 0"
    by (simp add: ms_since_boot_def quiet_end_def wrap_start_def)
  have same: "ready\<lparr>last_read_time_ms := 0\<rparr> = ready"
    by (simp add: ready_def)
  have first: "dht22_read ready (bench wrap_start quiet_pulses)
     = Some (DHT22_OK, Some (0, 0), ready\<lparr>last_read_time_ms := 0\<rparr>, quiet_end wrap_start)"
    using quiet_read[of wrap_start] by (simp add: ms)
  have r: "rate_limit ready (quiet_end wrap_start) = quiet_end wrap_start"
    by (simp add: rate_limit_first)
  have "drives (pin ready) (snd (dht22_send_start_signal (pin ready)
          (rate_limit ready (quiet_end wrap_start)))) []"
    using quiet_end_idle[of wrap_start] by (simp add: r)
  from read_frame_absent[OF this]
  have "read_frame ready (quiet_end wrap_start)
        = Some (DHT22_ERROR_TIMEOUT, [0, 0, 0, 0, 0],
           advance 201 (snd (dht22_send_start_signal 15 (quiet_end wrap_start))))"
    by (simp add: r)
  then have second: "dht22_read ready (quiet_end wrap_start)
     = Some (DHT22_ERROR_TIMEOUT, None, ready,
         \<lparr>clock_us = 4294967314231, line = waveform 4294967295917 (answer quiet_pulses),
          gpio_reads = 284, journal = start_events 15 @ start_events 15\<rparr>)"
    by (simp add: dht22_read_unfold)
       (simp add: advance_def dht22_send_start_signal_def gpio_set_dir_def sleep_us_def
          gpio_put_def log_call_def elapse_def DHT22_START_SIGNAL_DELAY_def start_events_def
          quiet_end_def wrap_start_def)
  have differ: "quiet_end wrap_start \<noteq> sleep_ms 2000 (quiet_end wrap_start)"
  proof
    assume "quiet_end wrap_start = sleep_ms 2000 (quiet_end wrap_start)"
    then have "clock_us (quiet_end wrap_start) = clock_us (sleep_ms 2000 (quiet_end wrap_start))"
      by simp
    then show False
      by (simp add: sleep_ms_def elapse_def log_call_def)
  qed
  show ?thesis
    using first second r ms differ by (simp add: same DHT22_MIN_INTERVAL_MS_def)
qed

text \<open>
  C2. Checksum verification of a frame succeeds exactly when byte 4 equals the sum of
  bytes 0 to 3 modulo 256, and otherwise returns \<^verbatim>\<open>DHT22_ERROR_CHECKSUM\<close>; a read
  whose capture completed with a frame that fails this test returns
  \<^verbatim>\<open>DHT22_ERROR_CHECKSUM\<close> and writes no output.
\<close>

theorem checksum_verification:
  "(dht22_verify_checksum data = DHT22_OK
      \<longleftrightarrow> unat (data ! 4)
            = (unat (data ! 0) + unat (data ! 1) + unat (data ! 2) + unat (data ! 3)) mod 256)
   \<and> (dht22_verify_checksum data = DHT22_OK \<or> dht22_verify_checksum data = DHT22_ERROR_CHECKSUM)
   \<and> (initialized s \<longrightarrow> read_frame s w = Some (DHT22_OK, data, w') \<longrightarrow>
        unat (data ! 4)
          \<noteq> (unat (data ! 0) + unat (data ! 1) + unat (data ! 2) + unat (data ! 3)) mod 256 \<longrightarrow>
        dht22_read s w
          = Some (DHT22_ERROR_CHECKSUM, None, s\<lparr>last_read_time_ms := ms_since_boot w'\<rparr>, w'))"
  using verify_checksum_iff[of data] verify_checksum_cases[of data]
  by (auto simp: dht22_read_unfold)

theorem checksum_verification_witness:
  "initialized ready
   \<and> read_frame ready (bench 5000 skewed_pulses) = Some (DHT22_OK, [0x40, 0, 0, 0, 0], skewed_end)
   \<and> unat ([0x40, 0, 0, 0, 0 :: u8] ! 4)
       \<noteq> (unat ([0x40, 0, 0, 0, 0 :: u8] ! 0) + unat ([0x40, 0, 0, 0, 0 :: u8] ! 1)
          + unat ([0x40, 0, 0, 0, 0 :: u8] ! 2) + unat ([0x40, 0, 0, 0, 0 :: u8] ! 3)) mod 256
   \<and> dht22_verify_checksum [0x40, 0, 0, 0, 0] = DHT22_ERROR_CHECKSUM
   \<and> dht22_read ready (bench 5000 skewed_pulses)
       = Some (DHT22_ERROR_CHECKSUM, None, ready\<lparr>last_read_time_ms := 23\<rparr>, skewed_end)"
proof -
  have ms: "ms_since_boot skewed_end = 23"
    by (simp add: ms_since_boot_def skewed_end_def)
  note t = checksum_verification[of "[0x40, 0, 0, 0, 0]" ready "bench 5000 skewed_pulses" skewed_end]
  from t[THEN conjunct1] t[THEN conjunct2, THEN conjunct1]
  have c: "dht22_verify_checksum [0x40, 0, 0, 0, 0] = DHT22_ERROR_CHECKSUM"
    by simp
  from t[THEN conjunct2, THEN conjunct2] skewed_run
  have "dht22_read ready (bench 5000 skewed_pulses)
       = Some (DHT22_ERROR_CHECKSUM, None, ready\<lparr>last_read_time_ms := 23\<rparr>, skewed_end)"
    by (simp add: ms)
  with c skewed_run show ?thesis by simp
qed

text \<open>
  C3. The capture of 40 bits returns, and when it returns \<^verbatim>\<open>DHT22_OK\<close> it measured 40
  pulses and bit \<open>i\<close> of the buffer, counted from the most significant bit of byte 0,
  is 1 exactly when the \<open>i\<close>-th measured pulse length exceeds 50 microseconds: a pulse
  of 49 gives 0 and a pulse of 51 gives 1.
\<close>

theorem bits_follow_pulse_lengths:
  "\<exists>rc data w'.
      dht22_read_data gpio [0, 0, 0, 0, 0] w = Some (rc, data, w')
    \<and> (rc = DHT22_OK \<longrightarrow>
          length (pulse_lengths gpio 40 w) = 40 \<and> length data = 5
        \<and> (\<forall>i<40. payload_bit data i \<longleftrightarrow> DHT22_BIT_THRESHOLD < pulse_lengths gpio 40 w ! i)
        \<and> (\<forall>i<40. (pulse_lengths gpio 40 w ! i = 49 \<longrightarrow> \<not> payload_bit data i)
                 \<and> (pulse_lengths gpio 40 w ! i = 51 \<longrightarrow> payload_bit data i)))"
proof -
  let ?ls = "pulse_lengths gpio 40 w"
  obtain rc d k where r: "read_data_loop gpio 0 [0, 0, 0, 0, 0] w = Some (rc, d, advance k w)"
      "length d = length [0 :: u8, 0, 0, 0, 0]"
      "rc = DHT22_OK \<longrightarrow> length (pulse_lengths gpio (40 - 0) w) = 40 - 0
           \<and> d = store_bits 0 (pulse_lengths gpio (40 - 0) w) [0, 0, 0, 0, 0]"
    using read_data_loop_total[of gpio 0 "[0, 0, 0, 0, 0]" w] by blast
  have "payload_bit d i \<longleftrightarrow> DHT22_BIT_THRESHOLD < ?ls ! i" if "rc = DHT22_OK" "i < 40" for i
  proof -
    from that r(3) have l: "length ?ls = 40" and d: "d = store_bits 0 ?ls [0, 0, 0, 0, 0]"
      by simp_all
    show ?thesis
      unfolding d using payload_bit_store_bits[of "[0, 0, 0, 0, 0]" 0 ?ls i] l that(2)
      by (simp add: payload_bit_zero)
  qed
  then show ?thesis
    using r by (auto simp: dht22_read_data_def DHT22_BIT_THRESHOLD_def)
qed

theorem bits_follow_pulse_lengths_witness:
  "dht22_read_data 15 [0, 0, 0, 0, 0] skewed_capture
     = Some (DHT22_OK, [0x40, 0, 0, 0, 0], skewed_end)
   \<and> pulse_lengths 15 40 skewed_capture ! 0 = 49 \<and> \<not> payload_bit [0x40, 0, 0, 0, 0] 0
   \<and> pulse_lengths 15 40 skewed_capture ! 1 = 51 \<and> payload_bit [0x40, 0, 0, 0, 0] 1"
proof -
  have l: "pulse_lengths 15 40 skewed_capture ! 0 = 49" "pulse_lengths 15 40 skewed_capture ! 1 = 51"
    by (simp_all add: skewed_capture_lengths skewed_pulses_def)
  obtain rc data w' where o:
    "dht22_read_data 15 [0, 0, 0, 0, 0] skewed_capture = Some (rc, data, w')"
    "rc = DHT22_OK \<longrightarrow>
       (\<forall>i<40. (pulse_lengths 15 40 skewed_capture ! i = 49 \<longrightarrow> \<not> payload_bit data i)
               \<and> (pulse_lengths 15 40 skewed_capture ! i = 51 \<longrightarrow> payload_bit data i))"
    using bits_follow_pulse_lengths[of 15 skewed_capture] by blast
  from o(1) skewed_capture_run have "rc = DHT22_OK" "data = [0x40, 0, 0, 0, 0]"
    by simp_all
  with o(2) l have "\<not> payload_bit [0x40, 0, 0, 0, 0] 0" "payload_bit [0x40, 0, 0, 0, 0] 1"
    by auto
  with l skewed_capture_run show ?thesis by blast
qed

text \<open>
  C4. The conversion returns \<^verbatim>\<open>DHT22_ERROR_INVALID_DATA\<close> exactly when the humidity it
  decoded is below 0 or above 100 or the temperature is below -40 or above 80, and a
  read whose frame passed the checksum and decodes to such values returns that error.
  The frames \<^verbatim>\<open>05 DC 00 00 E1\<close> (150.0 percent) and \<^verbatim>\<open>00 00 03 84 87\<close> (90.0 degrees)
  pass the checksum and are rejected.
\<close>

theorem invalid_data_rejected:
  "(fst (dht22_convert_data data) = DHT22_ERROR_INVALID_DATA
      \<longleftrightarrow> snd (snd (dht22_convert_data data)) < 0 \<or> 100 < snd (snd (dht22_convert_data data))
        \<or> fst (snd (dht22_convert_data data)) < - 40 \<or> 80 < fst (snd (dht22_convert_data data)))
   \<and> (initialized s \<longrightarrow> read_frame s w = Some (DHT22_OK, data, w') \<longrightarrow>
        dht22_verify_checksum data = DHT22_OK \<longrightarrow>
        (snd (snd (dht22_convert_data data)) < 0 \<or> 100 < snd (snd (dht22_convert_data data))
          \<or> fst (snd (dht22_convert_data data)) < - 40 \<or> 80 < fst (snd (dht22_convert_data data))) \<longrightarrow>
        dht22_read s w
          = Some (DHT22_ERROR_INVALID_DATA, Some (snd (dht22_convert_data data)),
                  s\<lparr>last_read_time_ms := ms_since_boot w'\<rparr>, w'))
   \<and> dht22_verify_checksum [0x05, 0xDC, 0, 0, 0xE1] = DHT22_OK
   \<and> dht22_convert_data [0x05, 0xDC, 0, 0, 0xE1] = (DHT22_ERROR_INVALID_DATA, 0, 150)
   \<and> dht22_verify_checksum [0, 0, 0x03, 0x84, 0x87] = DHT22_OK
   \<and> dht22_convert_data [0, 0, 0x03, 0x84, 0x87] = (DHT22_ERROR_INVALID_DATA, 90, 0)"
proof -
  have a: "fst (dht22_convert_data data) = DHT22_ERROR_INVALID_DATA
      \<longleftrightarrow> snd (snd (dht22_convert_data data)) < 0 \<or> 100 < snd (snd (dht22_convert_data data))
        \<or> fst (snd (dht22_convert_data data)) < - 40 \<or> 80 < fst (snd (dht22_convert_data data))"
    by (simp add: dht22_convert_data_def Let_def)
  show ?thesis
    using a convert_humid convert_hot verify_humid verify_hot
    by (simp add: dht22_read_unfold)
qed

theorem invalid_data_rejected_witness:
  "initialized ready
   \<and> read_frame ready (bench 5000 humid_pulses) = Some (DHT22_OK, [0x05, 0xDC, 0, 0, 0xE1], humid_end)
   \<and> dht22_verify_checksum [0x05, 0xDC, 0, 0, 0xE1] = DHT22_OK
   \<and> 100 < snd (snd (dht22_convert_data [0x05, 0xDC, 0, 0, 0xE1]))
   \<and> dht22_read ready (bench 5000 humid_pulses)
       = Some (DHT22_ERROR_INVALID_DATA, Some (0, 150), ready\<lparr>last_read_time_ms := 23\<rparr>, humid_end)"
proof -
  have ms: "ms_since_boot humid_end = 23"
    by (simp add: ms_since_boot_def humid_end_def)
  note t = invalid_data_rejected[of "[0x05, 0xDC, 0, 0, 0xE1]" ready "bench 5000 humid_pulses" humid_end]
  have h: "100 < snd (snd (dht22_convert_data [0x05, 0xDC, 0, 0, 0xE1]))"
    by (simp add: convert_humid)
  from t[THEN conjunct2, THEN conjunct1] humid_run verify_humid h
  have "dht22_read ready (bench 5000 humid_pulses)
       = Some (DHT22_ERROR_INVALID_DATA, Some (0, 150), ready\<lparr>last_read_time_ms := 23\<rparr>, humid_end)"
    by (simp add: ms convert_humid)
  with humid_run verify_humid h show ?thesis by simp
qed

text \<open>
  C1. For every frame the conversion computes the humidity as the big-endian 16-bit value
  of bytes 0 and 1 times 0.1, and the temperature as the big-endian 15-bit value of the
  low seven bits of byte 2 and of byte 3 times 0.1, negated when the top bit of byte 2
  is set. ``Times 0.1'' is the floating-point product \<open>times_0_1\<close>, which is within
  one part in \<open>2\<^sup>2\<^sup>3\<close> of the exact tenth. Bytes \<^verbatim>\<open>01 F4\<close> give 50 percent, bytes
  \<^verbatim>\<open>00 C8\<close> give 20 degrees and bytes \<^verbatim>\<open>80 C8\<close> give -20 degrees, exactly.
\<close>

theorem convert_decodes_frame:
  "snd (snd (dht22_convert_data data)) = times_0_1 (256 * uint (data ! 0) + uint (data ! 1))
   \<and> fst (snd (dht22_convert_data data))
       = (if bit (data ! 2) 7
          then - times_0_1 (256 * (uint (data ! 2) mod 128) + uint (data ! 3))
          else times_0_1 (256 * (uint (data ! 2) mod 128) + uint (data ! 3)))
   \<and> \<bar>times_0_1 (256 * uint (data ! 0) + uint (data ! 1))
        - of_int (256 * uint (data ! 0) + uint (data ! 1)) / 10\<bar>
       \<le> of_int (256 * uint (data ! 0) + uint (data ! 1)) / 10 / 2 ^ 23
   \<and> \<bar>times_0_1 (256 * (uint (data ! 2) mod 128) + uint (data ! 3))
        - of_int (256 * (uint (data ! 2) mod 128) + uint (data ! 3)) / 10\<bar>
       \<le> of_int (256 * (uint (data ! 2) mod 128) + uint (data ! 3)) / 10 / 2 ^ 23
   \<and> snd (snd (dht22_convert_data [0x01, 0xF4, b2, b3, b4])) = 50
   \<and> fst (snd (dht22_convert_data [b0, b1, 0x00, 0xC8, b4])) = 20
   \<and> fst (snd (dht22_convert_data [b0, b1, 0x80, 0xC8, b4])) = - 20"
proof -
  have "snd (snd (dht22_convert_data [0x01, 0xF4, b2, b3, b4])) = 50"
    by (simp add: humidity_decoded times_0_1_examples)
  moreover have "fst (snd (dht22_convert_data [b0, b1, 0x00, 0xC8, b4])) = 20"
    by (simp add: temperature_decoded times_0_1_examples)
  moreover have "fst (snd (dht22_convert_data [b0, b1, 0x80, 0xC8, b4])) = - 20"
    by (simp add: temperature_decoded times_0_1_examples)
  ultimately show ?thesis
    using humidity_decoded[of data] temperature_decoded[of data]
      times_0_1_error[OF raw_ranges(1,2), of "data ! 0" "data ! 1"]
      times_0_1_error[OF raw_ranges(3,4), of "data ! 2" "data ! 3"]
    by (simp only:)
qed

text \<open>
  C9. A read of an initialized driver returns, leaves the driver initialized on the same
  pin, and a read called next returns as well. Take any edge wait of the read, on the
  board \<open>w0\<close> on which it starts: if the pin does not show the awaited level at any of
  the 201 samples that the wait takes until more than 200 microseconds have elapsed, the
  wait returns -1 with its bound exceeded, and the read returns \<^verbatim>\<open>DHT22_ERROR_TIMEOUT\<close>
  when that wait ends, writes no output, leaves the driver state as it was, and a read
  called then returns. A wait returns non-zero in that case and in no other.
\<close>

theorem edge_timeout_keeps_driver_ready:
  assumes "initialized s"
  shows "(\<exists>rc out s' w'. dht22_read s w = Some (rc, out, s', w')
            \<and> initialized s' \<and> pin s' = pin s \<and> (\<exists>res. dht22_read s' w' = Some res))
    \<and> (edge_wait s w level w0 \<longrightarrow>
        (\<forall>j\<le>unat DHT22_RESPONSE_WAIT_TIMEOUT. line w0 (pin s) (clock_us w0 + j) \<noteq> level) \<longrightarrow>
          wait_for_pin_state (pin s) level DHT22_RESPONSE_WAIT_TIMEOUT w0
            = Some (- 1, advance 201 w0)
        \<and> DHT22_RESPONSE_WAIT_TIMEOUT < time_us_32 (advance 201 w0) - time_us_32 w0
        \<and> dht22_read s w = Some (DHT22_ERROR_TIMEOUT, None, s, advance 201 w0)
        \<and> (\<exists>res. dht22_read s (advance 201 w0) = Some res))
    \<and> (wait_for_pin_state (pin s) level DHT22_RESPONSE_WAIT_TIMEOUT w0 = Some (r, w1) \<longrightarrow>
          (r \<noteq> 0) = (\<forall>j\<le>unat DHT22_RESPONSE_WAIT_TIMEOUT.
                          line w0 (pin s) (clock_us w0 + j) \<noteq> level))"
proof -
  obtain rc out s' w' where r: "dht22_read s w = Some (rc, out, s', w')"
      "initialized s' = initialized s" "pin s' = pin s"
    using dht22_read_returns by blast
  moreover have "\<exists>res. dht22_read s' w' = Some res"
    using dht22_read_returns[of s' w'] by blast
  ultimately have a: "\<exists>rc out s' w'. dht22_read s w = Some (rc, out, s', w')
            \<and> initialized s' \<and> pin s' = pin s \<and> (\<exists>res. dht22_read s' w' = Some res)"
    using assms by blast
  have b: "wait_for_pin_state (pin s) level DHT22_RESPONSE_WAIT_TIMEOUT w0
            = Some (- 1, advance 201 w0)
        \<and> DHT22_RESPONSE_WAIT_TIMEOUT < time_us_32 (advance 201 w0) - time_us_32 w0
        \<and> dht22_read s w = Some (DHT22_ERROR_TIMEOUT, None, s, advance 201 w0)
        \<and> (\<exists>res. dht22_read s (advance 201 w0) = Some res)"
    if e: "edge_wait s w level w0"
      and absent: "\<forall>j\<le>unat DHT22_RESPONSE_WAIT_TIMEOUT. line w0 (pin s) (clock_us w0 + j) \<noteq> level"
  proof -
    from wait_for_pin_state_timeout[OF absent timeout_small]
    have t: "wait_for_pin_state (pin s) level DHT22_RESPONSE_WAIT_TIMEOUT w0
            = Some (- 1, advance 201 w0)"
      by simp
    have n: "(- 1 :: int) \<noteq> 0" by simp
    from edge_timeout_frame[OF e t n] read_timeout[OF assms]
    have "dht22_read s w = Some (DHT22_ERROR_TIMEOUT, None, s, advance 201 w0)"
      by blast
    moreover have "\<exists>res. dht22_read s (advance 201 w0) = Some res"
      using dht22_read_returns[of s "advance 201 w0"] by blast
    ultimately show ?thesis
      using t wait_for_pin_state_timeout_exceeded[OF t n] by simp
  qed
  have c: "(r \<noteq> 0) = (\<forall>j\<le>unat DHT22_RESPONSE_WAIT_TIMEOUT.
                          line w0 (pin s) (clock_us w0 + j) \<noteq> level)"
    if "wait_for_pin_state (pin s) level DHT22_RESPONSE_WAIT_TIMEOUT w0 = Some (r, w1)"
    using wait_for_pin_state_reports[OF that timeout_small] .
  from a b c show ?thesis by blast
qed

theorem edge_timeout_keeps_driver_ready_witness:
  "initialized ready
   \<and> edge_wait ready (stalled []) False (start_board ready (stalled []))
   \<and> dht22_read ready (stalled [])
       = Some (DHT22_ERROR_TIMEOUT, None, ready, advance 201 (start_board ready (stalled [])))
   \<and> edge_wait ready (stalled [(False, 300)]) True
         (advance 1 (start_board ready (stalled [(False, 300)])))
   \<and> dht22_read ready (stalled [(False, 300)])
       = Some (DHT22_ERROR_TIMEOUT, None, ready,
           advance 202 (start_board ready (stalled [(False, 300)])))
   \<and> edge_wait ready (stalled [(False, 1), (True, 300)]) False
         (advance 2 (start_board ready (stalled [(False, 1), (True, 300)])))
   \<and> dht22_read ready (stalled [(False, 1), (True, 300)])
       = Some (DHT22_ERROR_TIMEOUT, None, ready,
           advance 203 (start_board ready (stalled [(False, 1), (True, 300)])))
   \<and> edge_wait ready (stalled (answer [] @ [(False, 300)])) True
         (advance 3 (start_board ready (stalled (answer [] @ [(False, 300)]))))
   \<and> dht22_read ready (stalled (answer [] @ [(False, 300)]))
       = Some (DHT22_ERROR_TIMEOUT, None, ready,
           advance 204 (start_board ready (stalled (answer [] @ [(False, 300)]))))
   \<and> edge_wait ready (stalled (answer [5] @ [(True, 300)])) False
         (advance 10 (start_board ready (stalled (answer [5] @ [(True, 300)]))))
   \<and> dht22_read ready (stalled (answer [5] @ [(True, 300)]))
       = Some (DHT22_ERROR_TIMEOUT, None, ready,
           advance 211 (start_board ready (stalled (answer [5] @ [(True, 300)]))))"
proof -
  note fwd = edge_timeout_keeps_driver_ready[OF ready_simps(1), THEN conjunct2, THEN conjunct1, rule_format,
      THEN conjunct2, THEN conjunct2, THEN conjunct1]
  \<comment> \<open>the sensor never answers: the first wait of the handshake\<close>
  let ?W1 = "start_board ready (stalled [])"
  have e1: "edge_wait ready (stalled []) False ?W1"
    by (rule edge_wait.response_low)
  have a1: "\<forall>j\<le>unat DHT22_RESPONSE_WAIT_TIMEOUT. line ?W1 (pin ready) (clock_us ?W1 + j) \<noteq> False"
    by (rule absent_idle) (rule stalled_drives)
  note r1 = fwd[OF e1 a1[rule_format]]
  \<comment> \<open>the sensor pulls the line low and holds it: the second wait\<close>
  let ?W2 = "start_board ready (stalled [(False, 300)])"
  have d2: "drives (pin ready) ?W2 [(False, Suc 299)]"
    using stalled_drives[of "[(False, 300)]"] by simp
  have w2: "wait_for_pin_state (pin ready) False DHT22_RESPONSE_WAIT_TIMEOUT ?W2
            = Some (0, advance 1 ?W2)"
    using wait_hit_sim(1)[OF d2] by simp
  have d2a: "drives (pin ready) (advance 1 ?W2) [(False, 299)]"
    using wait_hit_sim(2)[OF d2] by simp
  have e2: "edge_wait ready (stalled [(False, 300)]) True (advance 1 ?W2)"
    using w2 by (rule edge_wait.response_high)
  have a2: "\<forall>j\<le>unat DHT22_RESPONSE_WAIT_TIMEOUT.
      line (advance 1 ?W2) (pin ready) (clock_us (advance 1 ?W2) + j) \<noteq> True"
    using absent_head[OF d2a, of 200] by simp
  have r2: "dht22_read ready (stalled [(False, 300)])
       = Some (DHT22_ERROR_TIMEOUT, None, ready, advance 202 ?W2)"
    using fwd[OF e2 a2[rule_format]] by (simp add: advance_advance)
  \<comment> \<open>low, then high for good: the third wait\<close>
  let ?S3 = "[(False, 1), (True, 300)]"
  let ?W3 = "start_board ready (stalled ?S3)"
  have d3: "drives (pin ready) ?W3 [(False, Suc 0), (True, Suc 299)]"
    using stalled_drives[of ?S3] by simp
  have w3: "wait_for_pin_state (pin ready) False DHT22_RESPONSE_WAIT_TIMEOUT ?W3
            = Some (0, advance 1 ?W3)"
    using wait_hit_sim(1)[OF d3] by simp
  have d3a: "drives (pin ready) (advance 1 ?W3) [(True, Suc 299)]"
    using wait_hit_sim(2)[OF d3] by (simp add: drives_zero)
  have w3a: "wait_for_pin_state (pin ready) True DHT22_RESPONSE_WAIT_TIMEOUT (advance 1 ?W3)
            = Some (0, advance 2 ?W3)"
    using wait_hit_sim(1)[OF d3a] by (simp add: advance_advance numeral_2_eq_2)
  have d3b: "drives (pin ready) (advance 2 ?W3) [(True, 299)]"
    using wait_hit_sim(2)[OF d3a] by (simp add: advance_advance numeral_2_eq_2)
  have e3: "edge_wait ready (stalled ?S3) False (advance 2 ?W3)"
    using w3 w3a by (rule edge_wait.response_low_again)
  have a3: "\<forall>j\<le>unat DHT22_RESPONSE_WAIT_TIMEOUT.
      line (advance 2 ?W3) (pin ready) (clock_us (advance 2 ?W3) + j) \<noteq> False"
    using absent_head[OF d3b, of 200] by simp
  have r3: "dht22_read ready (stalled ?S3)
       = Some (DHT22_ERROR_TIMEOUT, None, ready, advance 203 ?W3)"
    using fwd[OF e3 a3[rule_format]] by (simp add: advance_advance)
  \<comment> \<open>a handshake, then low for good: the first wait of bit 0\<close>
  let ?S4 = "answer [] @ [(False, 300)]"
  let ?W4 = "start_board ready (stalled ?S4)"
  have d4: "drives (pin ready) ?W4 ((False, 1) # (True, 1) # (False, 1) # [(False, 300)])"
    using stalled_drives[of ?S4] by (simp add: answer_def)
  have h4: "dht22_wait_for_response (pin ready) ?W4 = Some (DHT22_OK, advance 3 ?W4)"
    by (rule handshake_sim(1)[OF d4])
  have d4a: "drives (pin ready) (advance 3 ?W4) [(False, 300)]"
    by (rule handshake_sim(2)[OF d4])
  have e4: "edge_wait ready (stalled ?S4) True (advance 3 ?W4)"
    by (rule edge_wait.bit_rise[OF h4 capture_reaches.at_start]) simp
  have a4: "\<forall>j\<le>unat DHT22_RESPONSE_WAIT_TIMEOUT.
      line (advance 3 ?W4) (pin ready) (clock_us (advance 3 ?W4) + j) \<noteq> True"
    using absent_head[OF d4a, of 200] by simp
  have r4: "dht22_read ready (stalled ?S4)
       = Some (DHT22_ERROR_TIMEOUT, None, ready, advance 204 ?W4)"
    using fwd[OF e4 a4[rule_format]] by (simp add: advance_advance)
  \<comment> \<open>a handshake and one bit, then high for good: the second wait of bit 1\<close>
  let ?S5 = "answer [5] @ [(True, 300)]"
  let ?W5 = "start_board ready (stalled ?S5)"
  have d5: "drives (pin ready) ?W5
      ((False, 1) # (True, 1) # (False, 1) # (True, Suc 4) # (False, 1) # [(True, Suc 299)])"
    using stalled_drives[of ?S5] by (simp add: answer_def)
  have h5: "dht22_wait_for_response (pin ready) ?W5 = Some (DHT22_OK, advance 3 ?W5)"
    by (rule handshake_sim(1)[OF d5])
  have d5a: "drives (pin ready) (advance 3 ?W5) ((True, Suc 4) # (False, 1) # [(True, Suc 299)])"
    by (rule handshake_sim(2)[OF d5])
  have m5: "measure_pulse (pin ready) (advance 3 ?W5) = Some (Inr 5, advance 9 ?W5)"
    using measure_pulse_sim(1)[OF d5a] by (simp add: advance_advance)
  have d5b: "drives (pin ready) (advance 9 ?W5) [(True, Suc 299)]"
    using measure_pulse_sim(2)[OF d5a] by (simp add: advance_advance)
  have reach5: "capture_reaches (pin ready) (advance 3 ?W5) (Suc 0) (advance 9 ?W5)"
    by (rule capture_reaches.after_pulse[OF capture_reaches.at_start _ m5]) simp
  have w5: "wait_for_pin_state (pin ready) True DHT22_RESPONSE_WAIT_TIMEOUT (advance 9 ?W5)
            = Some (0, advance 10 ?W5)"
    using wait_hit_sim(1)[OF d5b] by (simp add: advance_advance)
  have d5c: "drives (pin ready) (advance 10 ?W5) [(True, 299)]"
    using wait_hit_sim(2)[OF d5b] by (simp add: advance_advance)
  have e5: "edge_wait ready (stalled ?S5) False (advance 10 ?W5)"
    by (rule edge_wait.bit_fall[OF h5 reach5 _ w5]) simp
  have a5: "\<forall>j\<le>unat DHT22_RESPONSE_WAIT_TIMEOUT.
      line (advance 10 ?W5) (pin ready) (clock_us (advance 10 ?W5) + j) \<noteq> False"
    using absent_head[OF d5c, of 200] by simp
  have r5: "dht22_read ready (stalled ?S5)
       = Some (DHT22_ERROR_TIMEOUT, None, ready, advance 211 ?W5)"
    using fwd[OF e5 a5[rule_format]] by (simp add: advance_advance)
  from e1 r1 e2 r2 e3 r3 e4 r4 e5 r5 show ?thesis
    by simp
qed

section \<open>Properties of the load-cell reader\<close>

text \<open>
  C8. In the model of \<^verbatim>\<open>hx711.c\<close> written from the spec, \<open>calibrate_hx711\<close> rejects
  a zero or negative \<open>actual_weight\<close> and keeps the stored scale factor, and
  \<open>calculate_weight\<close> refuses a zero scale factor instead of dividing by it;
  calibrating with (1000, 5.0) stores 200, and 400 then weighs 2.0.
\<close>

theorem hx711_guards:
  "(actual_weight \<le> 0 \<longrightarrow>
      calibrate_hx711 known_weight_reading actual_weight scale_factor
        = (Inl Invalid_Reference_Weight, scale_factor))
   \<and> calculate_weight reading 0 = Inl Scale_Factor_Zero
   \<and> calibrate_hx711 1000 5 scale_factor = (Inr (), 200)
   \<and> calculate_weight 400 200 = Inr 2"
  using hx711_examples by (simp add: calibrate_hx711_def calculate_weight_def)

theorem hx711_guards_witness:
  "(0 :: rat) \<le> 0 \<and> calibrate_hx711 1000 0 7 = (Inl Invalid_Reference_Weight, 7)
   \<and> (- 3 :: rat) \<le> 0 \<and> calibrate_hx711 1000 (- 3) 7 = (Inl Invalid_Reference_Weight, 7)"
  using hx711_guards[of 0 1000 7] hx711_guards[of "- 3" 1000 7] by simp

end
